theory Spec2Isabelle
  imports Complex_Main
begin

section \<open>The store: the four tables of the migration and their rows\<close>

text \<open>
  The service \<open>sequence-poses.service.ts\<close> talks to a Postgres database through the
  Supabase client. The rows below carry the columns the service selects or writes; the
  constraints are the ones the initial migration declares for \<open>sequence_poses\<close>:
  \<open>id uuid primary key\<close> and \<open>constraint unique_sequence_position unique (sequence_id, position)\<close>.
  A \<open>position\<close> is the \<open>int\<close> column of the migration, modelled as an unbounded integer.
\<close>

type_synonym uuid = string

record sequence_row =
  seq_id :: uuid
  seq_user_id :: uuid

record pose_row =
  pose_id :: uuid
  pose_name :: string
  pose_sanskrit_name :: "string option"
  pose_image_url :: "string option"
  pose_image_alt :: string
  pose_current_version_id :: "uuid option"

record pose_version_row =
  pv_id :: uuid
  pv_pose_id :: uuid
  pv_version :: int

record sequence_pose_row =
  sp_id :: uuid
  sp_sequence_id :: uuid
  sp_pose_id :: uuid
  sp_pose_version_id :: uuid
  sp_position :: int
  sp_added_at :: string

text \<open>The three kinds of write statement the service issues, all on \<open>sequence_poses\<close>.\<close>

datatype statement =
    InsertRow sequence_pose_row
  | UpdatePosition uuid int
  | DeleteRow uuid

datatype db_error =
  PrimaryKeyViolation | UniqueViolation | NotSingleRow | Unavailable | InvalidTextRepresentation

datatype error =
    SEQUENCE_NOT_FOUND
  | POSE_VERSION_NOT_FOUND
  | POSE_NOT_FOUND
  | INVALID_POSITION
  | SEQUENCE_POSE_NOT_FOUND
  | DURATION_AND_INSTRUCTIONS_NOT_SUPPORTED
  | StoreError db_error

text \<open>
  The state of the store. \<open>journal\<close> records every write statement the service sends, in
  order, whether the store applies it or refuses it. \<open>unavailable\<close> lists the row ids on
  which the store currently fails a write for a reason outside the schema (a lock held
  elsewhere, a timeout, a lost connection): it is what makes the source's
  \<open>if (updateError) throw updateError\<close> branches reachable on a schema-valid table.
  Every statement is sent on its own: the service opens no transaction, so a statement
  that was applied stays applied when a later one fails.
  \<open>uuid_type\<close> is the set of the texts that the store's type \<open>uuid\<close> reads as a UUID: the
  service passes the ids it is given to the store as texts, and the store refuses a
  comparison of a \<open>uuid\<close> column with any other text (\<open>invalid input syntax for type uuid\<close>,
  SQLSTATE 22P02). The refusal is modelled where the ids of a request first reach the
  store, in the ownership check. The id of an entry and the id of a pose are compared
  with the rows of their tables only: a statement below about such an id either has a
  row that carries it, or says that the id is a UUID.
\<close>

record store =
  sequences :: "sequence_row list"
  poses :: "pose_row list"
  pose_versions :: "pose_version_row list"
  sequence_poses :: "sequence_pose_row list"
  journal :: "statement list"
  unavailable :: "uuid list"
  uuid_type :: "string set"

definition primary_key :: "sequence_pose_row list \<Rightarrow> bool" where
  "primary_key rows = distinct (map sp_id rows)"

definition unique_sequence_position :: "sequence_pose_row list \<Rightarrow> bool" where
  "unique_sequence_position rows =
     distinct (map (\<lambda>r. (sp_sequence_id r, sp_position r)) rows)"

fun target :: "statement \<Rightarrow> uuid" where
  "target (InsertRow r) = sp_id r"
| "target (UpdatePosition i v) = i"
| "target (DeleteRow i) = i"

text \<open>
  One write statement: it is journalled, then refused when its row is unavailable or when
  the table it would produce breaks a constraint, and applied otherwise.
\<close>

definition run_statement ::
  "statement \<Rightarrow> (db_error + sequence_pose_row list) \<Rightarrow> store \<Rightarrow> (error + unit) \<times> store" where
  "run_statement w outcome st =
     (let st1 = st\<lparr>journal := journal st @ [w]\<rparr> in
      if target w \<in> set (unavailable st) then (Inl (StoreError Unavailable), st1)
      else case outcome of
             Inl e \<Rightarrow> (Inl (StoreError e), st1)
           | Inr rows' \<Rightarrow> (Inr (), st1\<lparr>sequence_poses := rows'\<rparr>))"

definition check_unique :: "sequence_pose_row list \<Rightarrow> db_error + sequence_pose_row list" where
  "check_unique rows' = (if unique_sequence_position rows' then Inr rows' else Inl UniqueViolation)"

definition set_position :: "uuid \<Rightarrow> int \<Rightarrow> sequence_pose_row list \<Rightarrow> sequence_pose_row list" where
  "set_position i v rows = map (\<lambda>r. if sp_id r = i then r\<lparr>sp_position := v\<rparr> else r) rows"

text \<open>\<open>.update({ position: v }).eq("id", i)\<close>\<close>

definition update_position :: "uuid \<Rightarrow> int \<Rightarrow> store \<Rightarrow> (error + unit) \<times> store" where
  "update_position i v st =
     run_statement (UpdatePosition i v) (check_unique (set_position i v (sequence_poses st))) st"

text \<open>\<open>.insert({...})\<close>: the id and \<open>added_at\<close> of the row are the column defaults.\<close>

definition insert_row :: "sequence_pose_row \<Rightarrow> store \<Rightarrow> (error + unit) \<times> store" where
  "insert_row r st =
     run_statement (InsertRow r)
       (if sp_id r \<in> set (map sp_id (sequence_poses st)) then Inl PrimaryKeyViolation
        else check_unique (sequence_poses st @ [r])) st"

text \<open>\<open>.delete().eq("id", i)\<close>\<close>

definition delete_row :: "uuid \<Rightarrow> store \<Rightarrow> (error + unit) \<times> store" where
  "delete_row i st =
     run_statement (DeleteRow i) (Inr (filter (\<lambda>r. sp_id r \<noteq> i) (sequence_poses st))) st"

text \<open>
  \<open>.maybeSingle()\<close> gives null on no row, the row on one, and an error on several;
  \<open>.single()\<close> wants exactly one row.
\<close>

fun maybeSingle :: "'a list \<Rightarrow> error + 'a option" where
  "maybeSingle [] = Inr None"
| "maybeSingle [x] = Inr (Some x)"
| "maybeSingle (x # y # zs) = Inl (StoreError NotSingleRow)"

fun single_row :: "'a list \<Rightarrow> error + 'a" where
  "single_row [x] = Inr x"
| "single_row xs = Inl (StoreError NotSingleRow)"

text \<open>\<open>.order("position", { ascending })\<close>\<close>

definition order_by_position :: "bool \<Rightarrow> sequence_pose_row list \<Rightarrow> sequence_pose_row list" where
  "order_by_position ascending rows =
     (if ascending then sort_key sp_position rows else rev (sort_key sp_position rows))"

section \<open>The service\<close>

record AddPoseToSequenceCommand =
  add_poseId :: uuid
  add_poseVersion :: "int option"
  add_position :: "int option"

record UpdateSequencePoseCommand =
  upd_position :: "int option"
  upd_duration :: "int option"
  upd_instructions :: "string option"

record SequencePoseDto =
  dto_id :: uuid
  dto_poseId :: uuid
  dto_poseName :: string
  dto_sanskritName :: "string option"
  dto_imageUrl :: "string option"
  dto_imageAlt :: string
  dto_position :: int
  dto_addedAt :: string

text \<open>The values the column defaults \<open>gen_random_uuid()\<close> and \<open>now()\<close> give an inserted row.\<close>

record generated =
  gen_id :: uuid
  gen_added_at :: string

text \<open>
  The select compares the \<open>uuid\<close> columns \<open>id\<close> and \<open>user_id\<close> of \<open>sequences\<close> with the two
  texts it is given. When one of them is not a UUID the store answers with the error
  22P02 instead of rows, and \<open>if (error) throw error\<close> throws it.
\<close>

definition verifySequenceOwnership :: "store \<Rightarrow> string \<Rightarrow> string \<Rightarrow> error + sequence_row" where
  "verifySequenceOwnership st sequenceId userId =
     (if sequenceId \<notin> uuid_type st \<or> userId \<notin> uuid_type st
      then Inl (StoreError InvalidTextRepresentation)
      else
     (case maybeSingle (filter (\<lambda>s. seq_id s = sequenceId \<and> seq_user_id s = userId) (sequences st)) of
        Inl e \<Rightarrow> Inl e
      | Inr None \<Rightarrow> Inl SEQUENCE_NOT_FOUND
      | Inr (Some data) \<Rightarrow> Inr data))"

text \<open>
  \<open>!poseData.current_version_id\<close> is true of null and of the empty string.
\<close>

definition resolvePoseVersion :: "store \<Rightarrow> uuid \<Rightarrow> int option \<Rightarrow> error + uuid" where
  "resolvePoseVersion st poseId version =
     (case version of
        Some v \<Rightarrow>
          (case maybeSingle (filter (\<lambda>pv. pv_pose_id pv = poseId \<and> pv_version pv = v) (pose_versions st)) of
             Inl e \<Rightarrow> Inl e
           | Inr None \<Rightarrow> Inl POSE_VERSION_NOT_FOUND
           | Inr (Some data) \<Rightarrow> Inr (pv_id data))
      | None \<Rightarrow>
          (case maybeSingle (filter (\<lambda>p. pose_id p = poseId) (poses st)) of
             Inl e \<Rightarrow> Inl e
           | Inr None \<Rightarrow> Inl POSE_NOT_FOUND
           | Inr (Some poseData) \<Rightarrow>
               (case pose_current_version_id poseData of
                  None \<Rightarrow> Inl POSE_NOT_FOUND
                | Some c \<Rightarrow> if c = [] then Inl POSE_NOT_FOUND else Inr c)))"

definition in_sequence :: "uuid \<Rightarrow> sequence_pose_row \<Rightarrow> bool" where
  "in_sequence sequenceId r = (sp_sequence_id r = sequenceId)"

text \<open>Highest position of the sequence plus one, or 1 for a sequence with no entry.\<close>

definition getNextPosition :: "store \<Rightarrow> uuid \<Rightarrow> int" where
  "getNextPosition st sequenceId =
     (case order_by_position False (filter (in_sequence sequenceId) (sequence_poses st)) of
        [] \<Rightarrow> 1
      | data # _ \<Rightarrow> sp_position data + 1)"

text \<open>
  The loop \<open>for (const pose of posesToShift)\<close>, which the source writes four times: each
  fetched \<open>(id, position)\<close> pair is written back with its position moved by \<open>d\<close>, and the
  first failing update is thrown.
\<close>

fun shift_each :: "int \<Rightarrow> (uuid \<times> int) list \<Rightarrow> store \<Rightarrow> (error + unit) \<times> store" where
  "shift_each d [] st = (Inr (), st)"
| "shift_each d (pose # posesToShift) st =
     (case update_position (fst pose) (snd pose + d) st of
        (Inl updateError, st') \<Rightarrow> (Inl updateError, st')
      | (Inr _, st') \<Rightarrow> shift_each d posesToShift st')"

text \<open>\<open>.select("id, position")\<close> on the entries of a sequence that satisfy \<open>P\<close>, ordered.\<close>

definition select_id_position ::
  "store \<Rightarrow> uuid \<Rightarrow> (int \<Rightarrow> bool) \<Rightarrow> bool \<Rightarrow> (uuid \<times> int) list" where
  "select_id_position st sequenceId P ascending =
     map (\<lambda>r. (sp_id r, sp_position r))
       (order_by_position ascending
          (filter (\<lambda>r. in_sequence sequenceId r \<and> P (sp_position r)) (sequence_poses st)))"

definition shiftPositionsUp :: "store \<Rightarrow> uuid \<Rightarrow> int \<Rightarrow> (error + unit) \<times> store" where
  "shiftPositionsUp st sequenceId fromPosition =
     shift_each 1 (select_id_position st sequenceId (\<lambda>p. fromPosition \<le> p) False) st"

definition shiftPositionsDown :: "store \<Rightarrow> uuid \<Rightarrow> int \<Rightarrow> (error + unit) \<times> store" where
  "shiftPositionsDown st sequenceId fromPosition =
     shift_each (- 1) (select_id_position st sequenceId (\<lambda>p. fromPosition < p) True) st"

text \<open>
  The embedded \<open>poses (...)\<close> of the select is the pose row the entry's \<open>pose_id\<close> points
  to, or null.
\<close>

definition fetchSequencePoseDto :: "store \<Rightarrow> uuid \<Rightarrow> error + SequencePoseDto" where
  "fetchSequencePoseDto st sequencePoseId =
     (case single_row (filter (\<lambda>r. sp_id r = sequencePoseId) (sequence_poses st)) of
        Inl e \<Rightarrow> Inl e
      | Inr data \<Rightarrow>
          (case find (\<lambda>p. pose_id p = sp_pose_id data) (poses st) of
             None \<Rightarrow> Inl SEQUENCE_POSE_NOT_FOUND
           | Some pose \<Rightarrow>
               Inr \<lparr>dto_id = sp_id data, dto_poseId = sp_pose_id data,
                    dto_poseName = pose_name pose, dto_sanskritName = pose_sanskrit_name pose,
                    dto_imageUrl = pose_image_url pose, dto_imageAlt = pose_image_alt pose,
                    dto_position = sp_position data, dto_addedAt = sp_added_at data\<rparr>))"

definition addPoseToSequence ::
  "store \<Rightarrow> uuid \<Rightarrow> uuid \<Rightarrow> AddPoseToSequenceCommand \<Rightarrow> generated
     \<Rightarrow> (error + SequencePoseDto) \<times> store" where
  "addPoseToSequence st userId sequenceId command gen =
     (case verifySequenceOwnership st sequenceId userId of
        Inl e \<Rightarrow> (Inl e, st)
      | Inr _ \<Rightarrow>
     (case resolvePoseVersion st (add_poseId command) (add_poseVersion command) of
        Inl e \<Rightarrow> (Inl e, st)
      | Inr poseVersionId \<Rightarrow>
     (let position = (case add_position command of
                        Some p \<Rightarrow> p
                      | None \<Rightarrow> getNextPosition st sequenceId);
          maxPosition = getNextPosition st sequenceId
      in if position > maxPosition then (Inl INVALID_POSITION, st)
         else
     (case (case add_position command of
              Some p \<Rightarrow> if p < maxPosition then shiftPositionsUp st sequenceId p else (Inr (), st)
            | None \<Rightarrow> (Inr (), st)) of
        (Inl e, st1) \<Rightarrow> (Inl e, st1)
      | (Inr _, st1) \<Rightarrow>
     (case insert_row \<lparr>sp_id = gen_id gen, sp_sequence_id = sequenceId,
                       sp_pose_id = add_poseId command, sp_pose_version_id = poseVersionId,
                       sp_position = position, sp_added_at = gen_added_at gen\<rparr> st1 of
        (Inl e, st2) \<Rightarrow> (Inl e, st2)
      | (Inr _, st2) \<Rightarrow>
     (case fetchSequencePoseDto st2 (gen_id gen) of
        Inl e \<Rightarrow> (Inl e, st2)
      | Inr dto \<Rightarrow> (Inr dto, st2)))))))"

text \<open>
  The body of \<open>if (command.position !== undefined && command.position !== existingPose.position)\<close>
  in \<open>updateSequencePose\<close>: range check, the shift of the entries between the two
  positions, then the write of the target entry.
\<close>

definition reorder :: "store \<Rightarrow> uuid \<Rightarrow> uuid \<Rightarrow> int \<Rightarrow> int \<Rightarrow> (error + unit) \<times> store" where
  "reorder st sequenceId sequencePoseId oldPosition newPosition =
     (let maxPosition = getNextPosition st sequenceId
      in if newPosition < 1 \<or> newPosition \<ge> maxPosition then (Inl INVALID_POSITION, st)
         else
     (case (if newPosition > oldPosition
            then shift_each (- 1)
                   (select_id_position st sequenceId (\<lambda>p. oldPosition < p \<and> p \<le> newPosition) True) st
            else (Inr (), st)) of
        (Inl e, st1) \<Rightarrow> (Inl e, st1)
      | (Inr _, st1) \<Rightarrow>
     (case (if newPosition < oldPosition
            then shift_each 1
                   (select_id_position st1 sequenceId (\<lambda>p. newPosition \<le> p \<and> p < oldPosition) False) st1
            else (Inr (), st1)) of
        (Inl e, st2) \<Rightarrow> (Inl e, st2)
      | (Inr _, st2) \<Rightarrow> update_position sequencePoseId newPosition st2)))"

definition updateSequencePose ::
  "store \<Rightarrow> uuid \<Rightarrow> uuid \<Rightarrow> uuid \<Rightarrow> UpdateSequencePoseCommand
     \<Rightarrow> (error + SequencePoseDto) \<times> store" where
  "updateSequencePose st userId sequenceId sequencePoseId command =
     (case verifySequenceOwnership st sequenceId userId of
        Inl e \<Rightarrow> (Inl e, st)
      | Inr _ \<Rightarrow>
     (case maybeSingle (filter (\<lambda>r. sp_id r = sequencePoseId \<and> in_sequence sequenceId r)
                          (sequence_poses st)) of
        Inl e \<Rightarrow> (Inl e, st)
      | Inr None \<Rightarrow> (Inl SEQUENCE_POSE_NOT_FOUND, st)
      | Inr (Some existingPose) \<Rightarrow>
     (if upd_duration command \<noteq> None \<or> upd_instructions command \<noteq> None
      then (Inl DURATION_AND_INSTRUCTIONS_NOT_SUPPORTED, st)
      else
     (case (case upd_position command of
              None \<Rightarrow> (Inr (), st)
            | Some newPosition \<Rightarrow>
                if newPosition \<noteq> sp_position existingPose
                then reorder st sequenceId sequencePoseId (sp_position existingPose) newPosition
                else (Inr (), st)) of
        (Inl e, st1) \<Rightarrow> (Inl e, st1)
      | (Inr _, st1) \<Rightarrow>
     (case fetchSequencePoseDto st1 sequencePoseId of
        Inl e \<Rightarrow> (Inl e, st1)
      | Inr dto \<Rightarrow> (Inr dto, st1))))))"

definition removeSequencePose ::
  "store \<Rightarrow> uuid \<Rightarrow> uuid \<Rightarrow> uuid \<Rightarrow> (error + unit) \<times> store" where
  "removeSequencePose st userId sequenceId sequencePoseId =
     (case verifySequenceOwnership st sequenceId userId of
        Inl e \<Rightarrow> (Inl e, st)
      | Inr _ \<Rightarrow>
     (case maybeSingle (filter (\<lambda>r. sp_id r = sequencePoseId \<and> in_sequence sequenceId r)
                          (sequence_poses st)) of
        Inl e \<Rightarrow> (Inl e, st)
      | Inr None \<Rightarrow> (Inl SEQUENCE_POSE_NOT_FOUND, st)
      | Inr (Some existingPose) \<Rightarrow>
     (case delete_row sequencePoseId st of
        (Inl deleteError, st1) \<Rightarrow> (Inl deleteError, st1)
      | (Inr _, st1) \<Rightarrow> shiftPositionsDown st1 sequenceId (sp_position existingPose))))"

section \<open>The HTTP handlers and their request schemas\<close>

text \<open>
  A parsed JSON body. \<open>JSON.parse\<close> keeps the last of several equal keys of an object,
  which \<open>field\<close> does by searching the pairs from the end. Numbers are finite (a JSON
  number that overflows to Infinity fails \<open>.int()\<close> like any other non-integer).
\<close>

datatype json =
    JNull
  | JBool bool
  | JNumber rat
  | JString string
  | JArray "json list"
  | JObject "(string \<times> json) list"

definition field :: "(string \<times> json) list \<Rightarrow> string \<Rightarrow> json option" where
  "field kvs k = map_of (rev kvs) k"

text \<open>The outcome of one Zod check: an issue, or the parsed value.\<close>

datatype 'a parsed = Issue | Parsed 'a

text \<open>\<open>z.number().int().positive()\<close> and \<open>z.number().int().nonnegative()\<close>\<close>

definition number_int_positive :: "json \<Rightarrow> int parsed" where
  "number_int_positive v =
     (case v of
        JNumber q \<Rightarrow> if of_int \<lfloor>q\<rfloor> = q \<and> 0 < q then Parsed \<lfloor>q\<rfloor> else Issue
      | _ \<Rightarrow> Issue)"

definition number_int_nonnegative :: "json \<Rightarrow> int parsed" where
  "number_int_nonnegative v =
     (case v of
        JNumber q \<Rightarrow> if of_int \<lfloor>q\<rfloor> = q \<and> 0 \<le> q then Parsed \<lfloor>q\<rfloor> else Issue
      | _ \<Rightarrow> Issue)"

text \<open>\<open>z.string().max(1000)\<close>\<close>

definition string_max_1000 :: "json \<Rightarrow> string parsed" where
  "string_max_1000 v =
     (case v of JString s \<Rightarrow> if length s \<le> 1000 then Parsed s else Issue | _ \<Rightarrow> Issue)"

text \<open>
  \<open>z.string().uuid()\<close>: the pattern of a UUID belongs to the Zod library, so the schemas
  take it as the parameter \<open>is_uuid\<close>. It is the handlers' check, apart from the store's
  own \<open>uuid_type\<close>.
\<close>

definition string_uuid :: "(string \<Rightarrow> bool) \<Rightarrow> json \<Rightarrow> string parsed" where
  "string_uuid is_uuid v =
     (case v of JString s \<Rightarrow> if is_uuid s then Parsed s else Issue | _ \<Rightarrow> Issue)"

text \<open>\<open>.optional()\<close>: an absent key is accepted as undefined.\<close>

definition optional :: "(json \<Rightarrow> 'a parsed) \<Rightarrow> json option \<Rightarrow> 'a option parsed" where
  "optional check v =
     (case v of
        None \<Rightarrow> Parsed None
      | Some j \<Rightarrow> (case check j of Issue \<Rightarrow> Issue | Parsed x \<Rightarrow> Parsed (Some x)))"

definition required :: "(json \<Rightarrow> 'a parsed) \<Rightarrow> json option \<Rightarrow> 'a parsed" where
  "required check v = (case v of None \<Rightarrow> Issue | Some j \<Rightarrow> check j)"

definition addPoseToSequenceSchema ::
  "(string \<Rightarrow> bool) \<Rightarrow> json \<Rightarrow> AddPoseToSequenceCommand parsed" where
  "addPoseToSequenceSchema is_uuid body =
     (case body of
        JObject kvs \<Rightarrow>
          (case (required (string_uuid is_uuid) (field kvs ''poseId''),
                 optional number_int_positive (field kvs ''poseVersion''),
                 optional number_int_positive (field kvs ''position'')) of
             (Parsed poseId, Parsed poseVersion, Parsed position) \<Rightarrow>
               Parsed \<lparr>add_poseId = poseId, add_poseVersion = poseVersion, add_position = position\<rparr>
           | _ \<Rightarrow> Issue)
      | _ \<Rightarrow> Issue)"

definition updateSequencePoseSchema :: "json \<Rightarrow> UpdateSequencePoseCommand parsed" where
  "updateSequencePoseSchema body =
     (case body of
        JObject kvs \<Rightarrow>
          (case (optional number_int_positive (field kvs ''position''),
                 optional number_int_nonnegative (field kvs ''duration''),
                 optional string_max_1000 (field kvs ''instructions'')) of
             (Parsed position, Parsed duration, Parsed instructions) \<Rightarrow>
               if position \<noteq> None \<or> duration \<noteq> None \<or> instructions \<noteq> None
               then Parsed \<lparr>upd_position = position, upd_duration = duration,
                            upd_instructions = instructions\<rparr>
               else Issue
           | _ \<Rightarrow> Issue)
      | _ \<Rightarrow> Issue)"

text \<open>\<open>uuidParamSchema.safeParse(params.x)\<close>: a missing path parameter is no string.\<close>

definition uuidParamSchema :: "(string \<Rightarrow> bool) \<Rightarrow> string option \<Rightarrow> string parsed" where
  "uuidParamSchema is_uuid v =
     (case v of None \<Rightarrow> Issue | Some s \<Rightarrow> if is_uuid s then Parsed s else Issue)"

text \<open>
  What a handler reads of a request: whether \<open>locals.supabase\<close> is set, the user
  \<open>supabase.auth.getUser()\<close> returns, the path parameters, and the body \<open>request.json()\<close>
  parses (none when it throws). A response is its status with the DTO or the error code.
\<close>

record http_request =
  req_supabase :: bool
  req_user :: "uuid option"
  req_sequenceId :: "string option"
  req_sequencePoseId :: "string option"
  req_body :: "json option"

datatype response = Json nat SequencePoseDto | ErrorResponse nat string

text \<open>The \<open>catch\<close> blocks: the thrown message chooses the code, anything else is a 500.\<close>

fun post_catch :: "error \<Rightarrow> response" where
  "post_catch SEQUENCE_NOT_FOUND = ErrorResponse 404 ''SEQUENCE_NOT_FOUND''"
| "post_catch POSE_NOT_FOUND = ErrorResponse 400 ''POSE_NOT_FOUND''"
| "post_catch POSE_VERSION_NOT_FOUND = ErrorResponse 400 ''POSE_VERSION_NOT_FOUND''"
| "post_catch INVALID_POSITION = ErrorResponse 400 ''INVALID_POSITION''"
| "post_catch e = ErrorResponse 500 ''INTERNAL_ERROR''"

fun patch_catch :: "error \<Rightarrow> response" where
  "patch_catch SEQUENCE_NOT_FOUND = ErrorResponse 404 ''SEQUENCE_NOT_FOUND''"
| "patch_catch SEQUENCE_POSE_NOT_FOUND = ErrorResponse 404 ''SEQUENCE_POSE_NOT_FOUND''"
| "patch_catch INVALID_POSITION = ErrorResponse 400 ''INVALID_POSITION''"
| "patch_catch DURATION_AND_INSTRUCTIONS_NOT_SUPPORTED = ErrorResponse 400 ''FEATURE_NOT_SUPPORTED''"
| "patch_catch e = ErrorResponse 500 ''INTERNAL_ERROR''"

definition POST ::
  "(string \<Rightarrow> bool) \<Rightarrow> store \<Rightarrow> http_request \<Rightarrow> generated \<Rightarrow> response \<times> store" where
  "POST is_uuid st request gen =
     (if \<not> req_supabase request then (ErrorResponse 500 ''INTERNAL_ERROR'', st)
      else case req_user request of
        None \<Rightarrow> (ErrorResponse 401 ''UNAUTHORIZED'', st)
      | Some user \<Rightarrow>
     (case uuidParamSchema is_uuid (req_sequenceId request) of
        Issue \<Rightarrow> (ErrorResponse 400 ''VALIDATION_ERROR'', st)
      | Parsed sequenceId \<Rightarrow>
     (case req_body request of
        None \<Rightarrow> (ErrorResponse 400 ''INVALID_JSON'', st)
      | Some requestBody \<Rightarrow>
     (case addPoseToSequenceSchema is_uuid requestBody of
        Issue \<Rightarrow> (ErrorResponse 400 ''VALIDATION_ERROR'', st)
      | Parsed command \<Rightarrow>
     (case addPoseToSequence st user sequenceId command gen of
        (Inr sequencePose, st') \<Rightarrow> (Json 201 sequencePose, st')
      | (Inl e, st') \<Rightarrow> (post_catch e, st'))))))"

definition PATCH ::
  "(string \<Rightarrow> bool) \<Rightarrow> store \<Rightarrow> http_request \<Rightarrow> response \<times> store" where
  "PATCH is_uuid st request =
     (if \<not> req_supabase request then (ErrorResponse 500 ''INTERNAL_ERROR'', st)
      else case req_user request of
        None \<Rightarrow> (ErrorResponse 401 ''UNAUTHORIZED'', st)
      | Some user \<Rightarrow>
     (case (uuidParamSchema is_uuid (req_sequenceId request),
            uuidParamSchema is_uuid (req_sequencePoseId request)) of
        (Parsed sequenceId, Parsed sequencePoseId) \<Rightarrow>
          (case req_body request of
             None \<Rightarrow> (ErrorResponse 400 ''INVALID_JSON'', st)
           | Some requestBody \<Rightarrow>
          (case updateSequencePoseSchema requestBody of
             Issue \<Rightarrow> (ErrorResponse 400 ''VALIDATION_ERROR'', st)
           | Parsed command \<Rightarrow>
          (case updateSequencePose st user sequenceId sequencePoseId command of
             (Inr updatedPose, st') \<Rightarrow> (Json 200 updatedPose, st')
           | (Inl e, st') \<Rightarrow> (patch_catch e, st'))))
      | _ \<Rightarrow> (ErrorResponse 400 ''VALIDATION_ERROR'', st)))"

section \<open>The properties the specification names\<close>

definition positions_of :: "store \<Rightarrow> uuid \<Rightarrow> int list" where
  "positions_of st sequenceId =
     map sp_position (filter (in_sequence sequenceId) (sequence_poses st))"

text \<open>The positions of a sequence with N entries are exactly 1, ..., N.\<close>

definition dense :: "store \<Rightarrow> uuid \<Rightarrow> bool" where
  "dense st sequenceId =
     (sort (positions_of st sequenceId) = [1..int (length (positions_of st sequenceId))])"

text \<open>
  The constraints of the migration that the service relies on: the primary key and the
  unique (sequence_id, position) of \<open>sequence_poses\<close>, and the foreign keys of
  \<open>sequence_poses.pose_id\<close> and \<open>pose_versions.pose_id\<close> into \<open>poses\<close>.
\<close>

definition schema_ok :: "store \<Rightarrow> bool" where
  "schema_ok st =
     (primary_key (sequence_poses st) \<and> unique_sequence_position (sequence_poses st) \<and>
      list_all (\<lambda>r. sp_pose_id r \<in> set (map pose_id (poses st))) (sequence_poses st) \<and>
      list_all (\<lambda>v. pv_pose_id v \<in> set (map pose_id (poses st))) (pose_versions st))"

text \<open>
  The constraints of the migration on the two tables \<open>resolvePoseVersion\<close> reads:
  \<open>id uuid primary key\<close> of \<open>poses\<close> and
  \<open>constraint unique_pose_version unique (pose_id, version)\<close> of \<open>pose_versions\<close>.
\<close>

definition poses_primary_key :: "pose_row list \<Rightarrow> bool" where
  "poses_primary_key rows = distinct (map pose_id rows)"

definition unique_pose_version :: "pose_version_row list \<Rightarrow> bool" where
  "unique_pose_version rows = distinct (map (\<lambda>v. (pv_pose_id v, pv_version v)) rows)"

text \<open>The table after every entry of a sequence whose position satisfies \<open>P\<close> moved by \<open>d\<close>.\<close>

definition shift_rows ::
  "uuid \<Rightarrow> (int \<Rightarrow> bool) \<Rightarrow> int \<Rightarrow> sequence_pose_row list \<Rightarrow> sequence_pose_row list" where
  "shift_rows sequenceId P d rows =
     map (\<lambda>r. if in_sequence sequenceId r \<and> P (sp_position r)
               then r\<lparr>sp_position := sp_position r + d\<rparr> else r) rows"

section \<open>A concrete store\<close>

text \<open>
  The sequence \<open>s1\<close> of user \<open>u1\<close> with the entries A, B, C, D at positions 1 to 4, as in
  the examples of the specification; every entry shows version \<open>v1\<close> of the pose \<open>p1\<close>,
  whose current version is \<open>v2\<close>. The short names stand for UUIDs; the text
  \<open>not-a-uuid\<close> is the one that is none.
\<close>

definition entry :: "uuid \<Rightarrow> int \<Rightarrow> sequence_pose_row" where
  "entry i p = \<lparr>sp_id = i, sp_sequence_id = ''s1'', sp_pose_id = ''p1'',
                sp_pose_version_id = ''v1'', sp_position = p, sp_added_at = ''t0''\<rparr>"

definition example_store :: store where
  "example_store =
     \<lparr>sequences = [\<lparr>seq_id = ''s1'', seq_user_id = ''u1''\<rparr>],
      poses = [\<lparr>pose_id = ''p1'', pose_name = ''Tree'', pose_sanskrit_name = Some ''Vrksasana'',
                pose_image_url = None, pose_image_alt = ''tree'',
                pose_current_version_id = Some ''v2''\<rparr>],
      pose_versions = [\<lparr>pv_id = ''v1'', pv_pose_id = ''p1'', pv_version = 1\<rparr>,
                       \<lparr>pv_id = ''v2'', pv_pose_id = ''p1'', pv_version = 2\<rparr>],
      sequence_poses = [entry ''A'' 1, entry ''B'' 2, entry ''C'' 3, entry ''D'' 4],
      journal = [], unavailable = [], uuid_type = - {''not-a-uuid''}\<rparr>"

definition empty_store :: store where
  "empty_store = example_store\<lparr>sequence_poses := []\<rparr>"

definition example_generated :: generated where
  "example_generated = \<lparr>gen_id = ''N'', gen_added_at = ''t1''\<rparr>"

definition add_command :: "int option \<Rightarrow> int option \<Rightarrow> AddPoseToSequenceCommand" where
  "add_command version position =
     \<lparr>add_poseId = ''p1'', add_poseVersion = version, add_position = position\<rparr>"

definition move_command :: "int \<Rightarrow> UpdateSequencePoseCommand" where
  "move_command position =
     \<lparr>upd_position = Some position, upd_duration = None, upd_instructions = None\<rparr>"

text \<open>A new version of the pose is published outside the service: a third row in
  \<open>pose_versions\<close>, and the pose's \<open>current_version_id\<close> now points to it.\<close>

definition publish_version :: "store \<Rightarrow> store" where
  "publish_version st =
     st\<lparr>poses := map (\<lambda>p. p\<lparr>pose_current_version_id := Some ''v3''\<rparr>) (poses st),
        pose_versions := pose_versions st @ [\<lparr>pv_id = ''v3'', pv_pose_id = ''p1'', pv_version = 3\<rparr>]\<rparr>"

section \<open>Auxiliary notions for the proofs\<close>

text \<open>The store after the statements \<open>js\<close> were sent and left the table \<open>rows\<close>.\<close>

definition applied :: "store \<Rightarrow> statement list \<Rightarrow> sequence_pose_row list \<Rightarrow> store" where
  "applied st js rows = st\<lparr>journal := journal st @ js, sequence_poses := rows\<rparr>"

text \<open>The table after the rows with an id in \<open>ids\<close> moved by \<open>d\<close>.\<close>

definition bump :: "uuid set \<Rightarrow> int \<Rightarrow> sequence_pose_row list \<Rightarrow> sequence_pose_row list" where
  "bump ids d rows =
     map (\<lambda>r. if sp_id r \<in> ids then r\<lparr>sp_position := sp_position r + d\<rparr> else r) rows"

text \<open>The update statements the loop sends for the fetched pairs.\<close>

definition updates :: "int \<Rightarrow> (uuid \<times> int) list \<Rightarrow> statement list" where
  "updates d ps = map (\<lambda>x. UpdatePosition (fst x) (snd x + d)) ps"

text \<open>A row without its position: what no position update may change.\<close>

definition unpositioned :: "sequence_pose_row \<Rightarrow> sequence_pose_row" where
  "unpositioned r = r\<lparr>sp_position := 0\<rparr>"

text \<open>
  \<open>st'\<close> comes from \<open>st\<close> by sending statements that changed positions only: the other
  tables, the unavailable rows and every column of \<open>sequence_poses\<close> but the position
  are as in \<open>st\<close>, row for row.
\<close>

definition framed :: "store \<Rightarrow> store \<Rightarrow> bool" where
  "framed st st' =
     (\<exists>js rows. st' = applied st js rows \<and>
        map unpositioned rows = map unpositioned (sequence_poses st))"

section \<open>Ownership\<close>

lemma not_owner_rejected:
  assumes "sequenceId \<in> uuid_type st" "userId \<in> uuid_type st"
    and "\<forall>s \<in> set (sequences st). seq_id s = sequenceId \<longrightarrow> seq_user_id s \<noteq> userId"
  shows "verifySequenceOwnership st sequenceId userId = Inl SEQUENCE_NOT_FOUND"
proof -
  have "filter (\<lambda>s. seq_id s = sequenceId \<and> seq_user_id s = userId) (sequences st) = []"
    using assms(3) by (auto simp: filter_empty_conv)
  with assms(1,2) show ?thesis by (simp add: verifySequenceOwnership_def)
qed

lemma refused_id_rejected:
  assumes "sequenceId \<notin> uuid_type st \<or> userId \<notin> uuid_type st"
  shows "addPoseToSequence st userId sequenceId addCommand gen
           = (Inl (StoreError InvalidTextRepresentation), st)"
    and "updateSequencePose st userId sequenceId sequencePoseId updateCommand
           = (Inl (StoreError InvalidTextRepresentation), st)"
    and "removeSequencePose st userId sequenceId sequencePoseId
           = (Inl (StoreError InvalidTextRepresentation), st)"
proof -
  from assms
  have "verifySequenceOwnership st sequenceId userId = Inl (StoreError InvalidTextRepresentation)"
    by (auto simp: verifySequenceOwnership_def)
  then show "addPoseToSequence st userId sequenceId addCommand gen
           = (Inl (StoreError InvalidTextRepresentation), st)"
    and "updateSequencePose st userId sequenceId sequencePoseId updateCommand
           = (Inl (StoreError InvalidTextRepresentation), st)"
    and "removeSequencePose st userId sequenceId sequencePoseId
           = (Inl (StoreError InvalidTextRepresentation), st)"
    by (simp_all add: addPoseToSequence_def updateSequencePose_def removeSequencePose_def)
qed

lemma refused_id_example:
  "removeSequencePose example_store ''u1'' ''not-a-uuid'' ''A''
     = (Inl (StoreError InvalidTextRepresentation), example_store)"
  by (rule refused_id_rejected) (simp add: example_store_def)

text \<open>
  Claim C6. For a sequence id and a user id (two UUIDs): when no row of \<open>sequences\<close> has
  both the requested id and the requesting user (the sequence does not exist, or every
  row with that id belongs to someone else), each of the three operations returns the
  same error \<open>SEQUENCE_NOT_FOUND\<close> and the store it leaves is the store it was given,
  journal included: the two cases cannot be told apart from the result. (A text that
  is not a UUID is no id; the store refuses it, see \<open>refused_id_rejected\<close>.)
\<close>

theorem ownership_not_found:
  assumes "sequenceId \<in> uuid_type st" "userId \<in> uuid_type st"
    and "\<forall>s \<in> set (sequences st). seq_id s = sequenceId \<longrightarrow> seq_user_id s \<noteq> userId"
  shows "addPoseToSequence st userId sequenceId addCommand gen = (Inl SEQUENCE_NOT_FOUND, st) \<and>
         updateSequencePose st userId sequenceId sequencePoseId updateCommand
           = (Inl SEQUENCE_NOT_FOUND, st) \<and>
         removeSequencePose st userId sequenceId sequencePoseId = (Inl SEQUENCE_NOT_FOUND, st)"
  using not_owner_rejected [OF assms]
  by (simp add: addPoseToSequence_def updateSequencePose_def removeSequencePose_def)

theorem ownership_not_found_witness:
  "addPoseToSequence example_store ''u2'' ''s1'' (add_command None (Some 2)) example_generated
     = (Inl SEQUENCE_NOT_FOUND, example_store) \<and>
   addPoseToSequence example_store ''u2'' ''s9'' (add_command None (Some 2)) example_generated
     = (Inl SEQUENCE_NOT_FOUND, example_store) \<and>
   updateSequencePose example_store ''u2'' ''s1'' ''A'' (move_command 3)
     = (Inl SEQUENCE_NOT_FOUND, example_store) \<and>
   updateSequencePose example_store ''u2'' ''s9'' ''A'' (move_command 3)
     = (Inl SEQUENCE_NOT_FOUND, example_store) \<and>
   removeSequencePose example_store ''u2'' ''s1'' ''A'' = (Inl SEQUENCE_NOT_FOUND, example_store) \<and>
   removeSequencePose example_store ''u2'' ''s9'' ''A'' = (Inl SEQUENCE_NOT_FOUND, example_store)"
  using ownership_not_found [where st = example_store and sequenceId = "''s1''"
          and userId = "''u2''" and addCommand = "add_command None (Some 2)"
          and gen = example_generated and sequencePoseId = "''A''"
          and updateCommand = "move_command 3"]
        ownership_not_found [where st = example_store and sequenceId = "''s9''"
          and userId = "''u2''" and addCommand = "add_command None (Some 2)"
          and gen = example_generated and sequencePoseId = "''A''"
          and updateCommand = "move_command 3"]
  by (simp add: example_store_def)

section \<open>Write statements\<close>

lemma applied_applied [simp]: "applied (applied st js rows) js' rows' = applied st (js @ js') rows'"
  by (simp add: applied_def)

lemma applied_fields [simp]:
  "sequence_poses (applied st js rows) = rows"
  "journal (applied st js rows) = journal st @ js"
  "sequences (applied st js rows) = sequences st"
  "poses (applied st js rows) = poses st"
  "pose_versions (applied st js rows) = pose_versions st"
  "unavailable (applied st js rows) = unavailable st"
  "uuid_type (applied st js rows) = uuid_type st"
  by (simp_all add: applied_def)

lemma applied_nil [simp]: "applied st [] (sequence_poses st) = st"
  by (simp add: applied_def)

lemma update_position_eq:
  "update_position i v st =
     (if i \<in> set (unavailable st)
      then (Inl (StoreError Unavailable), applied st [UpdatePosition i v] (sequence_poses st))
      else if unique_sequence_position (set_position i v (sequence_poses st))
      then (Inr (), applied st [UpdatePosition i v] (set_position i v (sequence_poses st)))
      else (Inl (StoreError UniqueViolation), applied st [UpdatePosition i v] (sequence_poses st)))"
  by (simp add: update_position_def run_statement_def check_unique_def applied_def Let_def)

lemma insert_row_eq:
  "insert_row r st =
     (if sp_id r \<in> set (unavailable st)
      then (Inl (StoreError Unavailable), applied st [InsertRow r] (sequence_poses st))
      else if sp_id r \<in> sp_id ` set (sequence_poses st)
      then (Inl (StoreError PrimaryKeyViolation), applied st [InsertRow r] (sequence_poses st))
      else if unique_sequence_position (sequence_poses st @ [r])
      then (Inr (), applied st [InsertRow r] (sequence_poses st @ [r]))
      else (Inl (StoreError UniqueViolation), applied st [InsertRow r] (sequence_poses st)))"
  by (simp add: insert_row_def run_statement_def check_unique_def applied_def Let_def)

lemma delete_row_eq:
  "delete_row i st =
     (if i \<in> set (unavailable st)
      then (Inl (StoreError Unavailable), applied st [DeleteRow i] (sequence_poses st))
      else (Inr (), applied st [DeleteRow i] (filter (\<lambda>r. sp_id r \<noteq> i) (sequence_poses st))))"
  by (simp add: delete_row_def run_statement_def applied_def Let_def)

lemma map_unpositioned_set_position [simp]:
  "map unpositioned (set_position i v rows) = map unpositioned rows"
  by (induction rows) (simp_all add: set_position_def unpositioned_def)

lemma map_sp_id_set_position [simp]: "map sp_id (set_position i v rows) = map sp_id rows"
  by (induction rows) (simp_all add: set_position_def)

lemma map_sp_id_bump [simp]: "map sp_id (bump ids d rows) = map sp_id rows"
  by (induction rows) (simp_all add: bump_def)

lemma primary_key_set_position [simp]: "primary_key (set_position i v rows) = primary_key rows"
  by (simp add: primary_key_def)

lemma set_position_absent: "i \<notin> sp_id ` set rows \<Longrightarrow> set_position i v rows = rows"
  by (induction rows) (auto simp: set_position_def)

lemma bump_absent: "ids \<inter> sp_id ` set rows = {} \<Longrightarrow> bump ids d rows = rows"
  by (induction rows) (auto simp: bump_def)

text \<open>Under the primary key, the row with id i is the only one a position update touches.\<close>

lemma set_position_split:
  assumes "primary_key rows" "r \<in> set rows"
  shows "\<exists>xs ys. rows = xs @ r # ys \<and> sp_id r \<notin> sp_id ` set xs \<and> sp_id r \<notin> sp_id ` set ys"
proof -
  from assms(2) obtain xs ys where e: "rows = xs @ r # ys" by (auto simp: in_set_conv_decomp)
  with assms(1) show ?thesis by (auto simp: primary_key_def)
qed

lemma set_position_append: "set_position i v (xs @ ys) = set_position i v xs @ set_position i v ys"
  by (simp add: set_position_def)

lemma bump_append: "bump ids d (xs @ ys) = bump ids d xs @ bump ids d ys"
  by (simp add: bump_def)

lemma pk_inj:
  assumes "primary_key rows" "r \<in> set rows" "r' \<in> set rows" "sp_id r = sp_id r'"
  shows "r = r'"
  using assms by (auto simp: primary_key_def distinct_map dest: inj_onD)

lemma set_position_Cons:
  "set_position i v (r # rows) = (if sp_id r = i then r\<lparr>sp_position := v\<rparr> else r) # set_position i v rows"
  by (simp add: set_position_def)

lemma unique_set_position_iff:
  assumes "primary_key rows" "unique_sequence_position rows" "r \<in> set rows"
  shows "unique_sequence_position (set_position (sp_id r) v rows) \<longleftrightarrow>
         (\<forall>r'\<in>set rows. sp_sequence_id r' = sp_sequence_id r \<and> sp_position r' = v \<longrightarrow> r' = r)"
proof -
  obtain xs ys where e: "rows = xs @ r # ys"
    and nx: "sp_id r \<notin> sp_id ` set xs" and ny: "sp_id r \<notin> sp_id ` set ys"
    using set_position_split [OF assms(1,3)] by blast
  have sp: "set_position (sp_id r) v (xs @ r # ys) = xs @ r\<lparr>sp_position := v\<rparr> # ys"
    using nx ny by (simp add: set_position_append set_position_Cons set_position_absent)
  have rn: "r \<notin> set xs" "r \<notin> set ys" using nx ny by auto
  show ?thesis
    using assms(2) rn unfolding e unique_sequence_position_def sp
    by (auto simp: image_iff)
qed

lemma in_set_position_other:
  "r \<in> set rows \<Longrightarrow> sp_id r \<noteq> i \<Longrightarrow> r \<in> set (set_position i v rows)"
  by (auto simp: set_position_def image_iff)

lemma in_set_positionE:
  assumes "r' \<in> set (set_position i v rows)"
  obtains "r' \<in> set rows" "sp_id r' \<noteq> i"
        | r where "r \<in> set rows" "sp_id r = i" "r' = r\<lparr>sp_position := v\<rparr>"
  using assms by (auto simp: set_position_def split: if_splits)

lemma bump_set_position:
  assumes "primary_key rows" "r \<in> set rows" "i \<notin> ids" "sp_id r = i"
  shows "bump ids d (set_position i (sp_position r + d) rows) = bump (insert i ids) d rows"
proof -
  have "\<And>r0. r0 \<in> set rows \<Longrightarrow> sp_id r0 = i \<Longrightarrow> r0 = r"
    using assms by (metis pk_inj)
  then show ?thesis
    using assms(3) by (auto simp: bump_def set_position_def)
qed

section \<open>The shift loop\<close>

lemma updates_simps [simp]:
  "updates d [] = []"
  "updates d (x # ps) = UpdatePosition (fst x) (snd x + d) # updates d ps"
  by (simp_all add: updates_def)

lemma bump_empty [simp]: "bump {} d rows = rows"
  by (simp add: bump_def)

lemma shift_each_succeeds:
  assumes "primary_key (sequence_poses st)"
      and "unique_sequence_position (sequence_poses st)"
      and "d = 1 \<or> d = - 1"
      and "\<forall>x\<in>set ps. \<exists>r\<in>set (sequence_poses st).
             sp_id r = fst x \<and> sp_position r = snd x \<and> sp_sequence_id r = sid"
      and "distinct (map fst ps)"
      and "sorted_wrt (\<lambda>x y. d * snd y < d * snd x) ps"
      and "\<forall>r\<in>set (sequence_poses st). sp_sequence_id r = sid \<longrightarrow> sp_id r \<notin> fst ` set ps \<longrightarrow>
             (\<forall>x\<in>set ps. sp_position r \<noteq> snd x + d)"
      and "\<forall>x\<in>set ps. fst x \<notin> set (unavailable st)"
  shows "shift_each d ps st =
           (Inr (), applied st (updates d ps) (bump (fst ` set ps) d (sequence_poses st))) \<and>
         unique_sequence_position (bump (fst ` set ps) d (sequence_poses st))"
  using assms
proof (induction ps arbitrary: st)
  case Nil
  then show ?case by simp
next
  case (Cons x ps)
  let ?rows = "sequence_poses st"
  let ?v = "snd x + d"
  from Cons.prems(4) obtain r where r: "r \<in> set ?rows" "sp_id r = fst x" "sp_position r = snd x"
    "sp_sequence_id r = sid" by auto
  let ?rows1 = "set_position (fst x) ?v ?rows"
  let ?st1 = "applied st [UpdatePosition (fst x) ?v] ?rows1"
  have pk: "primary_key ?rows" by (rule Cons.prems(1))
  have known: "sp_position r' = snd y"
    if "r' \<in> set ?rows" "y \<in> set (x # ps)" "sp_id r' = fst y" for r' y
  proof -
    from Cons.prems(4) that(2) obtain r'' where "r'' \<in> set ?rows" "sp_id r'' = fst y"
      "sp_position r'' = snd y" by blast
    with pk_inj [OF pk that(1) this(1)] that(3) show ?thesis by simp
  qed
  have strict: "d * snd y < d * snd x" if "y \<in> set ps" for y
    using Cons.prems(6) that by auto
  have no_clash: "r' = r"
    if "r' \<in> set ?rows" "sp_sequence_id r' = sp_sequence_id r \<and> sp_position r' = ?v" for r'
  proof (cases "sp_id r' \<in> fst ` set (x # ps)")
    case True
    then obtain y where y: "y \<in> set (x # ps)" "sp_id r' = fst y" by blast
    show ?thesis
    proof (cases "y = x")
      case True
      then show ?thesis using pk_inj [OF pk that(1) r(1)] y r(2) by simp
    next
      case False
      then have "y \<in> set ps" using y by simp
      from strict [OF this] known [OF that(1) y] that(2) Cons.prems(3)
      show ?thesis by (auto simp: algebra_simps)
    qed
  next
    case False
    with Cons.prems(7) that r(4) have "sp_position r' \<noteq> snd x + d" by auto
    with that show ?thesis by simp
  qed
  have u1: "unique_sequence_position ?rows1"
    using unique_set_position_iff [OF pk Cons.prems(2) r(1), of ?v] no_clash r(2) by auto
  have step: "update_position (fst x) ?v st = (Inr (), ?st1)"
    using Cons.prems(8) u1 by (simp add: update_position_eq)
  have ih: "shift_each d ps ?st1 =
      (Inr (), applied ?st1 (updates d ps) (bump (fst ` set ps) d (sequence_poses ?st1))) \<and>
      unique_sequence_position (bump (fst ` set ps) d (sequence_poses ?st1))"
  proof (rule Cons.IH)
    show "primary_key (sequence_poses ?st1)" using pk by simp
    show "unique_sequence_position (sequence_poses ?st1)" using u1 by simp
    show "d = 1 \<or> d = - 1" by (rule Cons.prems(3))
    show "distinct (map fst ps)" using Cons.prems(5) by simp
    show "sorted_wrt (\<lambda>x y. d * snd y < d * snd x) ps" using Cons.prems(6) by simp
    show "\<forall>x\<in>set ps. fst x \<notin> set (unavailable ?st1)" using Cons.prems(8) by simp
    show "\<forall>y\<in>set ps. \<exists>r\<in>set (sequence_poses ?st1).
             sp_id r = fst y \<and> sp_position r = snd y \<and> sp_sequence_id r = sid"
    proof
      fix y assume y: "y \<in> set ps"
      with Cons.prems(4) obtain ry where ry: "ry \<in> set ?rows" "sp_id ry = fst y"
        "sp_position ry = snd y" "sp_sequence_id ry = sid" by auto
      have "fst y \<noteq> fst x" using Cons.prems(5) y by (auto simp: image_iff)
      with ry have "ry \<in> set ?rows1" by (auto intro: in_set_position_other)
      with ry show "\<exists>r\<in>set (sequence_poses ?st1).
             sp_id r = fst y \<and> sp_position r = snd y \<and> sp_sequence_id r = sid" by auto
    qed
    show "\<forall>r\<in>set (sequence_poses ?st1). sp_sequence_id r = sid \<longrightarrow> sp_id r \<notin> fst ` set ps \<longrightarrow>
             (\<forall>y\<in>set ps. sp_position r \<noteq> snd y + d)"
    proof (intro ballI impI)
      fix r' y
      assume a: "r' \<in> set (sequence_poses ?st1)" "sp_sequence_id r' = sid"
        "sp_id r' \<notin> fst ` set ps" "y \<in> set ps"
      from a(1) have "r' \<in> set ?rows1" by simp
      then show "sp_position r' \<noteq> snd y + d"
      proof (cases rule: in_set_positionE)
        case 1
        with a Cons.prems(7) show ?thesis by auto
      next
        case (2 r0)
        with strict [OF a(4)] show ?thesis by auto
      qed
    qed
  qed
  have "bump (fst ` set ps) d ?rows1 = bump (fst ` set (x # ps)) d ?rows"
    using bump_set_position [OF pk r(1), where ids = "fst ` set ps" and i = "fst x" and d = d] Cons.prems(5) r(2,3)
    by (simp add: image_iff) 
  with ih step show ?case by simp
qed

text \<open>A loop that ends without an error met no unavailable row.\<close>

lemma shift_each_Inr_available:
  "shift_each d ps st = (Inr u, st') \<Longrightarrow> \<forall>x\<in>set ps. fst x \<notin> set (unavailable st)"
proof (induction ps arbitrary: st)
  case Nil
  then show ?case by simp
next
  case (Cons x ps)
  let ?st1 = "applied st [UpdatePosition (fst x) (snd x + d)]
                (set_position (fst x) (snd x + d) (sequence_poses st))"
  from Cons.prems have a: "fst x \<notin> set (unavailable st)" and s: "shift_each d ps ?st1 = (Inr u, st')"
    by (auto simp: update_position_eq split: if_splits)
  from Cons.IH [OF s] a show ?case by simp
qed

text \<open>Whatever its outcome, the loop sends only statements and changes only positions.\<close>

lemma update_position_frame:
  assumes "update_position i v st = (res, st1)"
  shows "\<exists>js rows. st1 = applied st js rows \<and>
           map unpositioned rows = map unpositioned (sequence_poses st)"
proof (cases "i \<notin> set (unavailable st) \<and>
              unique_sequence_position (set_position i v (sequence_poses st))")
  case True
  with assms have "st1 = applied st [UpdatePosition i v] (set_position i v (sequence_poses st))"
    by (simp add: update_position_eq)
  moreover have "map unpositioned (set_position i v (sequence_poses st))
                   = map unpositioned (sequence_poses st)" by simp
  ultimately show ?thesis by blast
next
  case False
  with assms have "st1 = applied st [UpdatePosition i v] (sequence_poses st)"
    by (auto simp: update_position_eq split: if_splits)
  then show ?thesis by blast
qed

lemma shift_each_frame:
  "shift_each d ps st = (res, st') \<Longrightarrow>
     \<exists>js rows. st' = applied st js rows \<and> map unpositioned rows = map unpositioned (sequence_poses st)"
proof (induction ps arbitrary: st)
  case Nil
  then have "st' = applied st [] (sequence_poses st)" by simp
  then show ?case by blast
next
  case (Cons x ps)
  show ?case
  proof (cases "update_position (fst x) (snd x + d) st")
    case (Pair res1 st1)
    have f1: "\<exists>js rows. st1 = applied st js rows \<and> map unpositioned rows = map unpositioned (sequence_poses st)"
      using Pair by (rule update_position_frame)
    show ?thesis
    proof (cases res1)
      case (Inl e)
      with Pair Cons.prems have "st' = st1" by simp
      with f1 show ?thesis by simp
    next
      case (Inr u)
      with Pair Cons.prems have "shift_each d ps st1 = (res, st')" by simp
      from Cons.IH [OF this] f1 show ?thesis by (metis applied_applied applied_fields(1))
    qed
  qed
qed

section \<open>Selections\<close>

lemma set_order_by_position [simp]: "set (order_by_position asc rows) = set rows"
  by (simp add: order_by_position_def)

lemma set_select_id_position:
  "set (select_id_position st sid P asc) =
     (\<lambda>r. (sp_id r, sp_position r)) `
       {r \<in> set (sequence_poses st). in_sequence sid r \<and> P (sp_position r)}"
  by (auto simp: select_id_position_def)

lemma fst_select_id_position:
  "fst ` set (select_id_position st sid P asc) =
     sp_id ` {r \<in> set (sequence_poses st). in_sequence sid r \<and> P (sp_position r)}"
  by (force simp: set_select_id_position image_iff)

lemma distinct_ids_select:
  assumes "primary_key (sequence_poses st)"
  shows "distinct (map fst (select_id_position st sid P asc))"
proof -
  have "distinct (map sp_id (filter Q (sequence_poses st)))" for Q
    using assms by (simp add: primary_key_def distinct_map_filter)
  then have "distinct (map sp_id (order_by_position asc (filter Q (sequence_poses st))))" for Q
    by (simp add: order_by_position_def distinct_map)
  then show ?thesis by (simp add: select_id_position_def comp_def)
qed

lemma distinct_positions_in_sequence:
  assumes "unique_sequence_position rows"
  shows "distinct (map sp_position (filter (\<lambda>r. in_sequence sid r \<and> P r) rows))"
proof -
  from assms have d: "distinct rows" and i: "inj_on (\<lambda>r. (sp_sequence_id r, sp_position r)) (set rows)"
    by (simp_all add: unique_sequence_position_def distinct_map)
  have "inj_on sp_position (set (filter (\<lambda>r. in_sequence sid r \<and> P r) rows))"
  proof (rule inj_onI)
    fix a b
    assume "a \<in> set (filter (\<lambda>r. in_sequence sid r \<and> P r) rows)"
      "b \<in> set (filter (\<lambda>r. in_sequence sid r \<and> P r) rows)" "sp_position a = sp_position b"
    then show "a = b" using inj_onD [OF i, of a b] by (simp add: in_sequence_def)
  qed
  with d show ?thesis by (simp add: distinct_map)
qed

lemma strictly_ascending_sort_key:
  assumes "distinct (map f xs)"
  shows "sorted_wrt (\<lambda>a b. f a < f b) (sort_key f xs)"
proof -
  have "distinct (map f (sort_key f xs))" using assms by (simp add: distinct_map)
  moreover have "sorted (map f (sort_key f xs))" by (rule sorted_sort_key)
  ultimately have "sorted_wrt (<) (map f (sort_key f xs))" by (simp add: strict_sorted_iff)
  then show ?thesis by (simp add: sorted_wrt_map)
qed

lemma select_ascending:
  assumes "unique_sequence_position (sequence_poses st)"
  shows "sorted_wrt (\<lambda>x y. snd x < snd y) (select_id_position st sid P True)"
  using strictly_ascending_sort_key [OF distinct_positions_in_sequence [OF assms, of sid "\<lambda>r. P (sp_position r)"]]
  by (simp add: select_id_position_def order_by_position_def sorted_wrt_map)

lemma select_descending:
  assumes "unique_sequence_position (sequence_poses st)"
  shows "sorted_wrt (\<lambda>x y. snd y < snd x) (select_id_position st sid P False)"
  using strictly_ascending_sort_key [OF distinct_positions_in_sequence [OF assms, of sid "\<lambda>r. P (sp_position r)"]]
  by (simp add: select_id_position_def order_by_position_def sorted_wrt_map sorted_wrt_rev)

lemma select_snapshot:
  "\<forall>x\<in>set (select_id_position st sid P asc). \<exists>r\<in>set (sequence_poses st).
      sp_id r = fst x \<and> sp_position r = snd x \<and> sp_sequence_id r = sid"
  by (auto simp: set_select_id_position in_sequence_def)

lemma bump_select:
  assumes "primary_key (sequence_poses st)"
  shows "bump (fst ` set (select_id_position st sid P asc)) d (sequence_poses st)
           = shift_rows sid P d (sequence_poses st)"
proof -
  have "sp_id r \<in> fst ` set (select_id_position st sid P asc) \<longleftrightarrow>
          in_sequence sid r \<and> P (sp_position r)" if "r \<in> set (sequence_poses st)" for r
  proof
    assume "sp_id r \<in> fst ` set (select_id_position st sid P asc)"
    then obtain r' where "r' \<in> set (sequence_poses st)" "in_sequence sid r'" "P (sp_position r')"
      "sp_id r' = sp_id r" by (auto simp: fst_select_id_position)
    with pk_inj [OF assms that this(1)] show "in_sequence sid r \<and> P (sp_position r)" by simp
  next
    assume "in_sequence sid r \<and> P (sp_position r)"
    with that show "sp_id r \<in> fst ` set (select_id_position st sid P asc)"
      by (auto simp: fst_select_id_position)
  qed
  then show ?thesis by (simp add: bump_def shift_rows_def)
qed

section \<open>Dense positions\<close>

lemma dense_list_iff:
  "sort ps = [1..int (length ps)] \<longleftrightarrow> distinct ps \<and> set ps = {1..int (length ps)}"
proof
  assume a: "sort ps = [1..int (length ps)]"
  have "set ps = set (sort ps)" by simp
  moreover have "distinct ps = distinct (sort ps)" by simp
  ultimately show "distinct ps \<and> set ps = {1..int (length ps)}" unfolding a by simp
next
  assume "distinct ps \<and> set ps = {1..int (length ps)}"
  then show "sort ps = [1..int (length ps)]"
    by (intro sorted_distinct_set_unique) simp_all
qed

lemma dense_iff:
  "dense st sid \<longleftrightarrow>
     distinct (positions_of st sid) \<and>
     set (positions_of st sid) = {1..int (length (positions_of st sid))}"
  by (simp add: dense_def dense_list_iff)

text \<open>Opening a slot at p in 1..N, and closing the slot at dp.\<close>

lemma dense_list_insert:
  assumes "distinct ps" "set ps = {1..int (length ps)}" "1 \<le> p" "p \<le> int (length ps) + 1"
  defines "ps' \<equiv> map (\<lambda>q. if p \<le> q then q + 1 else q) ps @ [p]"
  shows "distinct ps' \<and> set ps' = {1..int (length ps')}"
proof -
  let ?g = "\<lambda>q::int. if p \<le> q then q + 1 else q"
  have inj: "inj_on ?g (set ps)" by (auto simp: inj_on_def)
  have notin: "p \<notin> ?g ` set ps" by auto
  have "?g ` {1..int (length ps)} \<union> {p} = {1..int (length ps) + 1}"
  proof (intro equalityI subsetI)
    fix x assume "x \<in> ?g ` {1..int (length ps)} \<union> {p}"
    then show "x \<in> {1..int (length ps) + 1}" using assms(3,4) by (auto split: if_splits)
  next
    fix x assume x: "x \<in> {1..int (length ps) + 1}"
    show "x \<in> ?g ` {1..int (length ps)} \<union> {p}"
    proof (cases "x < p")
      case True
      with x assms(4) have "x = ?g x" "x \<in> {1..int (length ps)}" by auto
      then have "x \<in> ?g ` {1..int (length ps)}" by (rule image_eqI)
      then show ?thesis by simp
    next
      case False
      show ?thesis
      proof (cases "x = p")
        case True
        then show ?thesis by simp
      next
        case False
        with \<open>\<not> x < p\<close> x assms(3) have "x = ?g (x - 1)" "x - 1 \<in> {1..int (length ps)}" by auto
        then have "x \<in> ?g ` {1..int (length ps)}" by (rule image_eqI)
        then show ?thesis by simp
      qed
    qed
  qed
  then have "set ps' = {1..int (length ps')}"
    using assms(2) by (simp add: ps'_def)
  moreover have "distinct ps'"
    using assms(1) inj notin by (simp add: ps'_def distinct_map)
  ultimately show ?thesis by simp
qed

lemma filter_neq_remove1: "distinct ps \<Longrightarrow> filter (\<lambda>q. q \<noteq> x) ps = remove1 x ps"
  by (induction ps) (auto simp: remove1_idem)

lemma close_gap_inj:
  fixes a b dp :: int
  assumes "a \<noteq> dp" "b \<noteq> dp" "(if dp < a then a - 1 else a) = (if dp < b then b - 1 else b)"
  shows "a = b"
  using assms by (simp split: if_splits)

lemma close_gap_range:
  fixes a dp n :: int
  assumes "1 \<le> a" "a \<le> n" "a \<noteq> dp" "1 \<le> dp" "dp \<le> n"
  shows "1 \<le> (if dp < a then a - 1 else a) \<and> (if dp < a then a - 1 else a) \<le> n - 1"
  using assms by (simp split: if_splits)

lemma dense_list_remove:
  assumes "distinct ps" "set ps = {1..int (length ps)}" "dp \<in> set ps"
  defines "ps' \<equiv> map (\<lambda>q. if dp < q then q - 1 else q) (filter (\<lambda>q. q \<noteq> dp) ps)"
  shows "distinct ps' \<and> set ps' = {1..int (length ps')} \<and> length ps' + 1 = length ps"
proof -
  let ?h = "\<lambda>q::int. if dp < q then q - 1 else q"
  let ?n = "int (length ps)"
  let ?S = "{1..?n} - {dp}"
  have f: "filter (\<lambda>q. q \<noteq> dp) ps = remove1 dp ps"
    using assms(1) by (rule filter_neq_remove1)
  have "0 < length ps" using assms(3) by auto
  then have len: "length ps' + 1 = length ps"
    using assms(3) by (simp add: ps'_def f length_remove1)
  have s: "set (filter (\<lambda>q. q \<noteq> dp) ps) = ?S"
    unfolding set_filter assms(2) by blast
  have dp: "1 \<le> dp" "dp \<le> ?n" using assms(2,3) by auto
  have inj: "inj_on ?h ?S"
  proof (rule inj_onI)
    fix a b assume "a \<in> ?S" "b \<in> ?S" "?h a = ?h b"
    then show "a = b" using close_gap_inj [of a dp b] by simp
  qed
  have img: "?h ` ?S = {1..?n - 1}"
  proof (intro equalityI subsetI)
    fix x assume "x \<in> ?h ` ?S"
    then obtain a where a: "a \<in> ?S" "x = ?h a" by blast
    then have "1 \<le> a" "a \<le> ?n" "a \<noteq> dp" by simp_all
    from close_gap_range [OF this dp] a(2) show "x \<in> {1..?n - 1}" by simp
  next
    fix x assume x: "x \<in> {1..?n - 1}"
    show "x \<in> ?h ` ?S"
    proof (cases "x < dp")
      case True
      with x have "x = ?h x" "x \<in> ?S" by simp_all
      then show ?thesis by (rule image_eqI)
    next
      case False
      with x have "x = ?h (x + 1)" "x + 1 \<in> ?S" by simp_all
      then show ?thesis by (rule image_eqI)
    qed
  qed
  have n': "int (length ps') = ?n - 1" using len by linarith
  have "set ps' = ?h ` ?S" by (simp add: ps'_def s del: set_filter)
  then have "set ps' = {1..int (length ps')}" unfolding img n' .
  moreover have "distinct (filter (\<lambda>q. q \<noteq> dp) ps)" using assms(1) by simp
  then have "distinct ps'"
    unfolding ps'_def distinct_map s using inj by simp
  ultimately show ?thesis using len by simp
qed

section \<open>The two shift functions\<close>

lemma shiftPositionsUp_succeeds:
  assumes pk: "primary_key (sequence_poses st)"
      and uq: "unique_sequence_position (sequence_poses st)"
      and av: "\<forall>x\<in>set (select_id_position st sid (\<lambda>q. p \<le> q) False). fst x \<notin> set (unavailable st)"
  shows "shiftPositionsUp st sid p =
           (Inr (), applied st (updates 1 (select_id_position st sid (\<lambda>q. p \<le> q) False))
                      (shift_rows sid (\<lambda>q. p \<le> q) 1 (sequence_poses st))) \<and>
         unique_sequence_position (shift_rows sid (\<lambda>q. p \<le> q) 1 (sequence_poses st))"
proof -
  let ?ps = "select_id_position st sid (\<lambda>q. p \<le> q) False"
  have free: "\<forall>r\<in>set (sequence_poses st). sp_sequence_id r = sid \<longrightarrow> sp_id r \<notin> fst ` set ?ps \<longrightarrow>
             (\<forall>x\<in>set ?ps. sp_position r \<noteq> snd x + 1)"
  proof (intro ballI impI)
    fix r x
    assume r: "r \<in> set (sequence_poses st)" "sp_sequence_id r = sid" "sp_id r \<notin> fst ` set ?ps"
      and x: "x \<in> set ?ps"
    from r have "\<not> p \<le> sp_position r"
      by (auto simp: fst_select_id_position in_sequence_def)
    moreover from x have "p \<le> snd x" by (auto simp: set_select_id_position)
    ultimately show "sp_position r \<noteq> snd x + 1" by simp
  qed
  have "sorted_wrt (\<lambda>x y. 1 * snd y < 1 * snd x) ?ps"
    using select_descending [OF uq, of sid "\<lambda>q. p \<le> q"] by simp
  from shift_each_succeeds [OF pk uq _ select_snapshot distinct_ids_select [OF pk] this free av]
  show ?thesis by (simp add: shiftPositionsUp_def bump_select [OF pk])
qed

lemma shiftPositionsUp_Inr:
  assumes "primary_key (sequence_poses st)" "unique_sequence_position (sequence_poses st)"
      and "shiftPositionsUp st sid p = (Inr u, st1)"
  shows "st1 = applied st (updates 1 (select_id_position st sid (\<lambda>q. p \<le> q) False))
                 (shift_rows sid (\<lambda>q. p \<le> q) 1 (sequence_poses st)) \<and>
         unique_sequence_position (shift_rows sid (\<lambda>q. p \<le> q) 1 (sequence_poses st))"
proof -
  from assms(3) have "\<forall>x\<in>set (select_id_position st sid (\<lambda>q. p \<le> q) False).
      fst x \<notin> set (unavailable st)"
    unfolding shiftPositionsUp_def by (rule shift_each_Inr_available)
  from shiftPositionsUp_succeeds [OF assms(1,2) this] assms(3) show ?thesis by simp
qed

lemma shiftPositionsDown_succeeds:
  assumes pk: "primary_key (sequence_poses st)"
      and uq: "unique_sequence_position (sequence_poses st)"
      and gap: "\<forall>r\<in>set (sequence_poses st). in_sequence sid r \<longrightarrow> sp_position r \<noteq> p"
      and av: "\<forall>x\<in>set (select_id_position st sid (\<lambda>q. p < q) True). fst x \<notin> set (unavailable st)"
  shows "shiftPositionsDown st sid p =
           (Inr (), applied st (updates (- 1) (select_id_position st sid (\<lambda>q. p < q) True))
                      (shift_rows sid (\<lambda>q. p < q) (- 1) (sequence_poses st))) \<and>
         unique_sequence_position (shift_rows sid (\<lambda>q. p < q) (- 1) (sequence_poses st))"
proof -
  let ?ps = "select_id_position st sid (\<lambda>q. p < q) True"
  have free: "\<forall>r\<in>set (sequence_poses st). sp_sequence_id r = sid \<longrightarrow> sp_id r \<notin> fst ` set ?ps \<longrightarrow>
             (\<forall>x\<in>set ?ps. sp_position r \<noteq> snd x + - 1)"
  proof (intro ballI impI)
    fix r x
    assume r: "r \<in> set (sequence_poses st)" "sp_sequence_id r = sid" "sp_id r \<notin> fst ` set ?ps"
      and x: "x \<in> set ?ps"
    from r have "\<not> p < sp_position r"
      by (auto simp: fst_select_id_position in_sequence_def)
    moreover from r gap have "sp_position r \<noteq> p" by (simp add: in_sequence_def)
    moreover from x have "p < snd x" by (auto simp: set_select_id_position)
    ultimately show "sp_position r \<noteq> snd x + - 1" by simp
  qed
  have "sorted_wrt (\<lambda>x y. - 1 * snd y < - 1 * snd x) ?ps"
    using select_ascending [OF uq, of sid "\<lambda>q. p < q"] by simp
  from shift_each_succeeds [OF pk uq _ select_snapshot distinct_ids_select [OF pk] this free av]
  show ?thesis by (simp add: shiftPositionsDown_def bump_select [OF pk])
qed

lemma shiftPositionsDown_Inr:
  assumes "primary_key (sequence_poses st)" "unique_sequence_position (sequence_poses st)"
      and "\<forall>r\<in>set (sequence_poses st). in_sequence sid r \<longrightarrow> sp_position r \<noteq> p"
      and "shiftPositionsDown st sid p = (Inr u, st1)"
  shows "st1 = applied st (updates (- 1) (select_id_position st sid (\<lambda>q. p < q) True))
                 (shift_rows sid (\<lambda>q. p < q) (- 1) (sequence_poses st)) \<and>
         unique_sequence_position (shift_rows sid (\<lambda>q. p < q) (- 1) (sequence_poses st))"
proof -
  from assms(4) have "\<forall>x\<in>set (select_id_position st sid (\<lambda>q. p < q) True).
      fst x \<notin> set (unavailable st)"
    unfolding shiftPositionsDown_def by (rule shift_each_Inr_available)
  from shiftPositionsDown_succeeds [OF assms(1,2,3) this] assms(4) show ?thesis by simp
qed

section \<open>Positions of a sequence\<close>

lemma positions_of_applied [simp]:
  "positions_of (applied st js rows) sid = map sp_position (filter (in_sequence sid) rows)"
  by (simp add: positions_of_def)

lemma filter_in_sequence_shift_rows:
  "filter (in_sequence sid) (shift_rows sid P d rows) =
     map (\<lambda>r. if P (sp_position r) then r\<lparr>sp_position := sp_position r + d\<rparr> else r)
       (filter (in_sequence sid) rows)"
  by (induction rows) (simp_all add: shift_rows_def in_sequence_def)

lemma positions_shift_rows:
  "map sp_position (filter (in_sequence sid) (shift_rows sid P d rows)) =
     map (\<lambda>q. if P q then q + d else q) (map sp_position (filter (in_sequence sid) rows))"
  by (simp add: filter_in_sequence_shift_rows comp_def if_distrib [of sp_position] cong: if_cong)

lemma map_sp_id_shift_rows [simp]: "map sp_id (shift_rows sid P d rows) = map sp_id rows"
  by (induction rows) (simp_all add: shift_rows_def)

lemma map_unpositioned_shift_rows [simp]:
  "map unpositioned (shift_rows sid P d rows) = map unpositioned rows"
  by (induction rows) (simp_all add: shift_rows_def unpositioned_def)

lemma shift_rows_none:
  "\<forall>r\<in>set rows. in_sequence sid r \<longrightarrow> \<not> P (sp_position r) \<Longrightarrow> shift_rows sid P d rows = rows"
  by (induction rows) (auto simp: shift_rows_def)

lemma getNextPosition_dense:
  assumes "dense st sid"
  shows "getNextPosition st sid = int (length (positions_of st sid)) + 1"
proof -
  let ?xs = "filter (in_sequence sid) (sequence_poses st)"
  let ?n = "int (length (positions_of st sid))"
  from assms have s: "sp_position ` set ?xs = {1..?n}"
    by (simp add: dense_iff positions_of_def)
  show ?thesis
  proof (cases "rev (sort_key sp_position ?xs)")
    case Nil
    then have "?xs = []" by (metis length_0_conv length_rev length_sort)
    with Nil show ?thesis by (simp add: getNextPosition_def order_by_position_def positions_of_def)
  next
    case (Cons r rs)
    then have e: "sort_key sp_position ?xs = rev rs @ [r]" by (metis rev.simps(2) rev_rev_ident)
    have "sorted (map sp_position (rev rs @ [r]))" unfolding e [symmetric] by (rule sorted_sort_key)
    then have le: "\<forall>y\<in>set (rev rs @ [r]). sp_position y \<le> sp_position r"
      by (auto simp: sorted_append)
    have sets: "set (rev rs @ [r]) = set ?xs" unfolding e [symmetric] by simp
    have "r \<in> set ?xs" using sets by auto
    then have "sp_position r \<in> {1..?n}" using s by blast
    moreover have "0 < ?n"
      using length_pos_if_in_set [OF \<open>r \<in> set ?xs\<close>] by (simp add: positions_of_def)
    then have "1 \<le> ?n" by linarith
    then have "?n \<in> sp_position ` set ?xs" unfolding s by simp
    then obtain y where y: "?n = sp_position y" "y \<in> set ?xs" by (rule imageE)
    from y(2) have "y \<in> set (rev rs @ [r])" unfolding sets .
    with le have "sp_position y \<le> sp_position r" by blast
    with y(1) have "?n \<le> sp_position r" by simp
    ultimately have "sp_position r = ?n" by simp
    with Cons show ?thesis by (simp add: getNextPosition_def order_by_position_def)
  qed
qed

section \<open>Insert\<close>

lemma maybeSingle_SomeD: "maybeSingle xs = Inr (Some x) \<Longrightarrow> xs = [x]"
  by (cases xs rule: maybeSingle.cases) simp_all

lemma resolve_pose_exists:
  assumes "schema_ok st" "resolvePoseVersion st poseId version = Inr v"
  shows "poseId \<in> pose_id ` set (poses st)"
proof (cases version)
  case None
  with assms(2) obtain poseData where
    "maybeSingle (filter (\<lambda>p. pose_id p = poseId) (poses st)) = Inr (Some poseData)"
    by (auto simp: resolvePoseVersion_def split: sum.splits option.splits if_splits)
  then have "filter (\<lambda>p. pose_id p = poseId) (poses st) = [poseData]" by (rule maybeSingle_SomeD)
  then have "poseData \<in> set (filter (\<lambda>p. pose_id p = poseId) (poses st))" by simp
  then show ?thesis by auto
next
  case (Some n)
  with assms(2) obtain data where
    "maybeSingle (filter (\<lambda>pv. pv_pose_id pv = poseId \<and> pv_version pv = n) (pose_versions st))
       = Inr (Some data)"
    by (auto simp: resolvePoseVersion_def split: sum.splits option.splits)
  then have "filter (\<lambda>pv. pv_pose_id pv = poseId \<and> pv_version pv = n) (pose_versions st) = [data]"
    by (rule maybeSingle_SomeD)
  then have "data \<in> set (filter (\<lambda>pv. pv_pose_id pv = poseId \<and> pv_version pv = n) (pose_versions st))"
    by simp
  then have "data \<in> set (pose_versions st)" "pv_pose_id data = poseId" by simp_all
  with assms(1) show ?thesis by (auto simp: schema_ok_def list_all_iff)
qed

lemma find_pose:
  assumes "i \<in> pose_id ` set ps"
  obtains pose where "find (\<lambda>p. pose_id p = i) ps = Some pose"
  using assms by (cases "find (\<lambda>p. pose_id p = i) ps") (auto simp: find_None_iff)

lemma filter_id_absent: "i \<notin> sp_id ` set rows \<Longrightarrow> filter (\<lambda>r. sp_id r = i) rows = []"
  by (induction rows) auto

lemma filter_id_present:
  assumes "primary_key rows" "r \<in> set rows"
  shows "filter (\<lambda>x. sp_id x = sp_id r) rows = [r]"
proof -
  obtain xs ys where e: "rows = xs @ r # ys"
    and nx: "sp_id r \<notin> sp_id ` set xs" and ny: "sp_id r \<notin> sp_id ` set ys"
    using set_position_split [OF assms] by blast
  show ?thesis unfolding e using nx ny by (simp add: filter_id_absent)
qed

lemma fetch_created:
  assumes "sp_id new \<notin> sp_id ` set rows" "sp_pose_id new \<in> pose_id ` set (poses st)"
  shows "\<exists>dto. fetchSequencePoseDto (applied st js (rows @ [new])) (sp_id new) = Inr dto \<and>
           dto_id dto = sp_id new \<and> dto_poseId dto = sp_pose_id new \<and>
           dto_position dto = sp_position new"
proof -
  from assms(2) obtain pose where "find (\<lambda>p. pose_id p = sp_pose_id new) (poses st) = Some pose"
    by (rule find_pose)
  then show ?thesis using assms(1) by (simp add: fetchSequencePoseDto_def filter_id_absent)
qed

lemma unique_with_created:
  assumes "unique_sequence_position (shift_rows sid (\<lambda>q. p \<le> q) 1 rows)"
    "sp_sequence_id new = sid" "sp_position new = p"
  shows "unique_sequence_position (shift_rows sid (\<lambda>q. p \<le> q) 1 rows @ [new])"
proof -
  have "(sp_sequence_id r', sp_position r') \<noteq> (sid, p)"
    if "r' \<in> set (shift_rows sid (\<lambda>q. p \<le> q) 1 rows)" for r'
  proof -
    from that obtain r where r: "r \<in> set rows"
      "r' = (if in_sequence sid r \<and> p \<le> sp_position r
             then r\<lparr>sp_position := sp_position r + 1\<rparr> else r)"
      by (auto simp: shift_rows_def)
    show ?thesis
    proof (cases "in_sequence sid r \<and> p \<le> sp_position r")
      case True
      with r(2) show ?thesis by simp
    next
      case False
      with r(2) show ?thesis by (auto simp: in_sequence_def)
    qed
  qed
  then have "(sid, p) \<notin> (\<lambda>r. (sp_sequence_id r, sp_position r)) `
      set (shift_rows sid (\<lambda>q. p \<le> q) 1 rows)" by blast
  with assms show ?thesis by (simp add: unique_sequence_position_def)
qed

lemma dense_positions_bounded:
  assumes "dense st sid" "r \<in> set (sequence_poses st)" "in_sequence sid r"
  shows "1 \<le> sp_position r \<and> sp_position r \<le> int (length (positions_of st sid))"
proof -
  from assms(2,3) have "sp_position r \<in> set (positions_of st sid)" by (simp add: positions_of_def)
  with assms(1) show ?thesis by (simp add: dense_iff)
qed

text \<open>The shift phase of Insert, whether the branch is taken or not.\<close>

lemma insert_phase:
  assumes "schema_ok st" "dense st sid"
      and "p = (case position of Some q \<Rightarrow> q | None \<Rightarrow> getNextPosition st sid)"
      and "p \<le> getNextPosition st sid"
      and "\<forall>x\<in>set (select_id_position st sid (\<lambda>q. p \<le> q) False). fst x \<notin> set (unavailable st)"
  shows "(case position of
            Some q \<Rightarrow> if q < getNextPosition st sid then shiftPositionsUp st sid q else (Inr (), st)
          | None \<Rightarrow> (Inr (), st))
         = (Inr (), applied st (updates 1 (select_id_position st sid (\<lambda>q. p \<le> q) False))
                      (shift_rows sid (\<lambda>q. p \<le> q) 1 (sequence_poses st)))
         \<and> unique_sequence_position (shift_rows sid (\<lambda>q. p \<le> q) 1 (sequence_poses st))"
proof (cases "p < getNextPosition st sid")
  case True
  with assms(3) obtain q where "position = Some q" "q = p" by (cases position) auto
  with True shiftPositionsUp_succeeds [OF _ _ assms(5)] assms(1)
  show ?thesis by (simp add: schema_ok_def)
next
  case False
  with assms(4) have p: "p = getNextPosition st sid" by simp
  have none: "\<forall>r\<in>set (sequence_poses st). in_sequence sid r \<longrightarrow> \<not> p \<le> sp_position r"
    using dense_positions_bounded [OF assms(2)] p getNextPosition_dense [OF assms(2)] by fastforce
  then have "select_id_position st sid (\<lambda>q. p \<le> q) False = []"
    by (auto simp: select_id_position_def order_by_position_def filter_empty_conv)
  moreover have "shift_rows sid (\<lambda>q. p \<le> q) 1 (sequence_poses st) = sequence_poses st"
    using none by (rule shift_rows_none)
  ultimately show ?thesis using assms(1,3) p by (cases position) (simp_all add: schema_ok_def)
qed

lemma primary_key_distinct: "primary_key rows \<Longrightarrow> distinct rows"
  by (simp add: primary_key_def distinct_map)

text \<open>
  What Insert does once ownership and the pose version are settled and the position is
  in range, in terms of the rows it leaves unavailable rows aside.
\<close>

lemma insert_run:
  assumes ok: "schema_ok st" and dn: "dense st sid"
      and own: "verifySequenceOwnership st sid uid = Inr owner"
      and ver: "resolvePoseVersion st (add_poseId cmd) (add_poseVersion cmd) = Inr v"
      and p: "p = (case add_position cmd of Some q \<Rightarrow> q | None \<Rightarrow> getNextPosition st sid)"
      and le: "p \<le> getNextPosition st sid"
      and av: "\<forall>x\<in>set (select_id_position st sid (\<lambda>q. p \<le> q) False). fst x \<notin> set (unavailable st)"
      and avn: "gen_id gen \<notin> set (unavailable st)"
      and fresh: "gen_id gen \<notin> sp_id ` set (sequence_poses st)"
      and new: "new = \<lparr>sp_id = gen_id gen, sp_sequence_id = sid, sp_pose_id = add_poseId cmd,
                       sp_pose_version_id = v, sp_position = p, sp_added_at = gen_added_at gen\<rparr>"
  shows "\<exists>dto. addPoseToSequence st uid sid cmd gen =
           (Inr dto, applied st (updates 1 (select_id_position st sid (\<lambda>q. p \<le> q) False) @ [InsertRow new])
                       (shift_rows sid (\<lambda>q. p \<le> q) 1 (sequence_poses st) @ [new])) \<and>
           dto_id dto = gen_id gen \<and> dto_poseId dto = add_poseId cmd \<and> dto_position dto = p"
proof -
  let ?ps = "select_id_position st sid (\<lambda>q. p \<le> q) False"
  let ?rows1 = "shift_rows sid (\<lambda>q. p \<le> q) 1 (sequence_poses st)"
  let ?st1 = "applied st (updates 1 ?ps) ?rows1"
  note phase = insert_phase [OF ok dn p le av]
  have pose: "sp_pose_id new \<in> pose_id ` set (poses st)"
    using resolve_pose_exists [OF ok ver] by (simp add: new)
  have id: "sp_id new \<notin> sp_id ` set ?rows1"
    using fresh by (simp add: new flip: set_map)
  have uq: "unique_sequence_position (?rows1 @ [new])"
    using phase by (intro unique_with_created) (simp_all add: new)
  have ins: "insert_row new ?st1 = (Inr (), applied st (updates 1 ?ps @ [InsertRow new]) (?rows1 @ [new]))"
    using id uq avn by (simp add: insert_row_eq) (simp add: new)
  from fetch_created [OF id pose, of "updates 1 ?ps @ [InsertRow new]"]
  obtain dto where dto: "fetchSequencePoseDto (applied st (updates 1 ?ps @ [InsertRow new]) (?rows1 @ [new])) (gen_id gen) = Inr dto"
    "dto_id dto = gen_id gen" "dto_poseId dto = add_poseId cmd" "dto_position dto = p"
    by (auto simp: new)
  have "addPoseToSequence st uid sid cmd gen =
          (Inr dto, applied st (updates 1 ?ps @ [InsertRow new]) (?rows1 @ [new]))"
    unfolding addPoseToSequence_def Let_def
    using own ver le p [symmetric] phase ins dto(1) by (simp add: new)
  with dto show ?thesis by blast
qed

lemma insert_dense:
  assumes "dense st sid" "1 \<le> p" "p \<le> int (length (positions_of st sid)) + 1"
    "sp_sequence_id new = sid" "sp_position new = p"
  shows "dense (applied st js (shift_rows sid (\<lambda>q. p \<le> q) 1 (sequence_poses st) @ [new])) sid \<and>
         length (positions_of (applied st js (shift_rows sid (\<lambda>q. p \<le> q) 1 (sequence_poses st) @ [new])) sid)
           = length (positions_of st sid) + 1"
proof -
  let ?ps = "positions_of st sid"
  have e: "positions_of (applied st js (shift_rows sid (\<lambda>q. p \<le> q) 1 (sequence_poses st) @ [new])) sid
             = map (\<lambda>q. if p \<le> q then q + 1 else q) ?ps @ [p]"
    using assms(4,5) by (simp add: positions_shift_rows in_sequence_def) (simp add: positions_of_def)
  from assms(1) have "distinct ?ps" "set ?ps = {1..int (length ?ps)}" by (simp_all add: dense_iff)
  from dense_list_insert [OF this assms(2,3)] show ?thesis
    unfolding dense_iff e by simp
qed

lemma updates_select:
  "updates d (select_id_position st sid P asc) =
     map (\<lambda>r. UpdatePosition (sp_id r) (sp_position r + d))
       (order_by_position asc (filter (\<lambda>r. in_sequence sid r \<and> P (sp_position r)) (sequence_poses st)))"
  by (simp add: updates_def select_id_position_def comp_def)

lemma ordered_selection:
  fixes st :: store and sid :: uuid and P :: "int \<Rightarrow> bool" and asc :: bool
  assumes "schema_ok st"
  defines "xs \<equiv> order_by_position asc
                  (filter (\<lambda>r. in_sequence sid r \<and> P (sp_position r)) (sequence_poses st))"
  shows "set xs = {r \<in> set (sequence_poses st). in_sequence sid r \<and> P (sp_position r)}"
    and "distinct xs"
    and "asc \<Longrightarrow> sorted_wrt (\<lambda>a b. sp_position a < sp_position b) xs"
    and "\<not> asc \<Longrightarrow> sorted_wrt (\<lambda>a b. sp_position b < sp_position a) xs"
proof -
  from assms(1) have pk: "primary_key (sequence_poses st)"
    and uq: "unique_sequence_position (sequence_poses st)" by (simp_all add: schema_ok_def)
  show "set xs = {r \<in> set (sequence_poses st). in_sequence sid r \<and> P (sp_position r)}"
    by (auto simp: xs_def)
  show "distinct xs"
    using primary_key_distinct [OF pk] by (simp add: xs_def order_by_position_def)
  note s = strictly_ascending_sort_key [OF distinct_positions_in_sequence [OF uq, of sid "\<lambda>r. P (sp_position r)"]]
  show "asc \<Longrightarrow> sorted_wrt (\<lambda>a b. sp_position a < sp_position b) xs"
    using s by (simp add: xs_def order_by_position_def)
  show "\<not> asc \<Longrightarrow> sorted_wrt (\<lambda>a b. sp_position b < sp_position a) xs"
    using s by (simp add: xs_def order_by_position_def sorted_wrt_rev)
qed

text \<open>
  Claim C2. On a dense sequence of N entries in a schema-valid store whose rows are all
  writable, Insert by the owner with a resolved pose version and a position p in 1..N+1
  (the supplied one, or N+1 when none is supplied) succeeds. The statements it sends are
  one update per existing entry of the sequence at a position \<ge> p, each to its position
  plus one, in strictly descending order of position, and then the insert of the new
  entry at p; the table it leaves is the old one with exactly those entries moved up by
  one and the new entry added, and it is dense with N+1 entries. With the position
  omitted no update is sent and every existing row is unchanged.
\<close>

theorem insert_postcondition:
  assumes ok: "schema_ok st" and dn: "dense st sid" and av: "unavailable st = []"
      and own: "verifySequenceOwnership st sid uid = Inr owner"
      and ver: "resolvePoseVersion st (add_poseId cmd) (add_poseVersion cmd) = Inr v"
      and fresh: "gen_id gen \<notin> sp_id ` set (sequence_poses st)"
      and p: "p = (case add_position cmd of Some q \<Rightarrow> q
                   | None \<Rightarrow> int (length (positions_of st sid)) + 1)"
      and range: "1 \<le> p" "p \<le> int (length (positions_of st sid)) + 1"
      and new: "new = \<lparr>sp_id = gen_id gen, sp_sequence_id = sid, sp_pose_id = add_poseId cmd,
                       sp_pose_version_id = v, sp_position = p, sp_added_at = gen_added_at gen\<rparr>"
  shows "\<exists>dto st' shifted.
           addPoseToSequence st uid sid cmd gen = (Inr dto, st') \<and>
           dto_id dto = gen_id gen \<and> dto_position dto = p \<and>
           set shifted = {r \<in> set (sequence_poses st). in_sequence sid r \<and> p \<le> sp_position r} \<and>
           distinct shifted \<and>
           sorted_wrt (\<lambda>a b. sp_position b < sp_position a) shifted \<and>
           journal st' = journal st
              @ map (\<lambda>r. UpdatePosition (sp_id r) (sp_position r + 1)) shifted @ [InsertRow new] \<and>
           sequence_poses st' = shift_rows sid (\<lambda>q. p \<le> q) 1 (sequence_poses st) @ [new] \<and>
           (add_position cmd = None \<longrightarrow>
              shifted = [] \<and> sequence_poses st' = sequence_poses st @ [new]) \<and>
           dense st' sid \<and>
           length (positions_of st' sid) = length (positions_of st sid) + 1"
proof -
  let ?shifted = "order_by_position False
                    (filter (\<lambda>r. in_sequence sid r \<and> p \<le> sp_position r) (sequence_poses st))"
  let ?rows' = "shift_rows sid (\<lambda>q. p \<le> q) 1 (sequence_poses st) @ [new]"
  let ?js = "updates 1 (select_id_position st sid (\<lambda>q. p \<le> q) False) @ [InsertRow new]"
  note gnp = getNextPosition_dense [OF dn]
  have p': "p = (case add_position cmd of Some q \<Rightarrow> q | None \<Rightarrow> getNextPosition st sid)"
    unfolding gnp by (rule p)
  have le: "p \<le> getNextPosition st sid" using range gnp by simp
  have av': "\<forall>x\<in>set (select_id_position st sid (\<lambda>q. p \<le> q) False). fst x \<notin> set (unavailable st)"
    using av by simp
  have avn: "gen_id gen \<notin> set (unavailable st)" using av by simp
  from insert_run [OF ok dn own ver p' le av' avn fresh new]
  obtain dto where dto: "addPoseToSequence st uid sid cmd gen = (Inr dto, applied st ?js ?rows')"
    "dto_id dto = gen_id gen" "dto_position dto = p" by blast
  note sel = ordered_selection [OF ok, where sid = sid and P = "\<lambda>q. p \<le> q" and asc = False]
  have none: "?shifted = [] \<and> ?rows' = sequence_poses st @ [new]" if "add_position cmd = None"
  proof -
    from that p have "p = int (length (positions_of st sid)) + 1" by simp
    with dense_positions_bounded [OF dn]
    have n: "\<forall>r\<in>set (sequence_poses st). in_sequence sid r \<longrightarrow> \<not> p \<le> sp_position r" by fastforce
    then have "?shifted = []" by (auto simp: order_by_position_def filter_empty_conv)
    with shift_rows_none [OF n] show ?thesis by simp
  qed
  have d: "dense (applied st ?js ?rows') sid \<and>
           length (positions_of (applied st ?js ?rows') sid) = length (positions_of st sid) + 1"
    using range by (intro insert_dense [OF dn]) (simp_all add: new)
  show ?thesis
    apply (rule exI [of _ dto], rule exI [of _ "applied st ?js ?rows'"], rule exI [of _ ?shifted])
    using dto sel none d by (simp add: updates_select)
qed

section \<open>The operations on the concrete store\<close>

lemmas example_defs = example_store_def entry_def example_generated_def add_command_def
  move_command_def empty_store_def

lemma example_schema_ok: "schema_ok example_store"
  by (simp add: schema_ok_def primary_key_def unique_sequence_position_def example_defs)

lemma example_dense: "dense example_store ''s1''"
  by (simp add: dense_def positions_of_def in_sequence_def example_defs upto.simps)

lemma example_owner:
  "verifySequenceOwnership example_store ''s1'' ''u1'' = Inr \<lparr>seq_id = ''s1'', seq_user_id = ''u1''\<rparr>"
  by (simp add: verifySequenceOwnership_def example_defs)

lemma example_current_version: "resolvePoseVersion example_store ''p1'' None = Inr ''v2''"
  by (simp add: resolvePoseVersion_def example_defs)

lemma example_pinned_version: "resolvePoseVersion example_store ''p1'' (Some 1) = Inr ''v1''"
  by (simp add: resolvePoseVersion_def example_defs)

lemma example_count: "length (positions_of example_store ''s1'') = 4"
  by (simp add: positions_of_def in_sequence_def example_defs)

lemma insert_in_middle:
  "addPoseToSequence example_store ''u1'' ''s1'' (add_command None (Some 2)) example_generated =
     (Inr \<lparr>dto_id = ''N'', dto_poseId = ''p1'', dto_poseName = ''Tree'',
           dto_sanskritName = Some ''Vrksasana'', dto_imageUrl = None, dto_imageAlt = ''tree'',
           dto_position = 2, dto_addedAt = ''t1''\<rparr>,
      example_store\<lparr>
        sequence_poses := [entry ''A'' 1, entry ''B'' 3, entry ''C'' 4, entry ''D'' 5,
                           (entry ''N'' 2)\<lparr>sp_pose_version_id := ''v2'', sp_added_at := ''t1''\<rparr>],
        journal := [UpdatePosition ''D'' 5, UpdatePosition ''C'' 4, UpdatePosition ''B'' 3,
                    InsertRow ((entry ''N'' 2)\<lparr>sp_pose_version_id := ''v2'', sp_added_at := ''t1''\<rparr>)]\<rparr>)"
  by code_simp


theorem insert_postcondition_witness:
  "\<exists>dto st' shifted.
     addPoseToSequence example_store ''u1'' ''s1'' (add_command None (Some 2)) example_generated
       = (Inr dto, st') \<and>
     dto_id dto = ''N'' \<and> dto_position dto = 2 \<and>
     set shifted = {r \<in> set (sequence_poses example_store). in_sequence ''s1'' r \<and> 2 \<le> sp_position r} \<and>
     distinct shifted \<and>
     sorted_wrt (\<lambda>a b. sp_position b < sp_position a) shifted \<and>
     journal st' = journal example_store
        @ map (\<lambda>r. UpdatePosition (sp_id r) (sp_position r + 1)) shifted
        @ [InsertRow ((entry ''N'' 2)\<lparr>sp_pose_version_id := ''v2'', sp_added_at := ''t1''\<rparr>)] \<and>
     sequence_poses st' = shift_rows ''s1'' (\<lambda>q. 2 \<le> q) 1 (sequence_poses example_store)
        @ [(entry ''N'' 2)\<lparr>sp_pose_version_id := ''v2'', sp_added_at := ''t1''\<rparr>] \<and>
     dense st' ''s1'' \<and> length (positions_of st' ''s1'') = 5"
proof -
  have fresh: "gen_id example_generated \<notin> sp_id ` set (sequence_poses example_store)"
    by (simp add: example_defs)
  have av: "unavailable example_store = []" by (simp add: example_defs)
  have ver: "resolvePoseVersion example_store (add_poseId (add_command None (Some 2)))
               (add_poseVersion (add_command None (Some 2))) = Inr ''v2''"
    using example_current_version by (simp add: add_command_def)
  have p: "(2::int) = (case add_position (add_command None (Some 2)) of Some q \<Rightarrow> q
             | None \<Rightarrow> int (length (positions_of example_store ''s1'')) + 1)"
    by (simp add: add_command_def)
  have new: "(entry ''N'' 2)\<lparr>sp_pose_version_id := ''v2'', sp_added_at := ''t1''\<rparr> =
      \<lparr>sp_id = gen_id example_generated, sp_sequence_id = ''s1'',
       sp_pose_id = add_poseId (add_command None (Some 2)), sp_pose_version_id = ''v2'',
       sp_position = 2, sp_added_at = gen_added_at example_generated\<rparr>"
    by (simp add: example_defs)
  from insert_postcondition [OF example_schema_ok example_dense av example_owner ver fresh p _ _ new]
  show ?thesis by (simp add: example_count example_generated_def add_command_def)
qed

section \<open>Remove\<close>

lemma uq_inj:
  assumes "unique_sequence_position rows" "r \<in> set rows" "r' \<in> set rows"
    "sp_sequence_id r = sp_sequence_id r'" "sp_position r = sp_position r'"
  shows "r = r'"
proof -
  from assms(1) have "inj_on (\<lambda>r. (sp_sequence_id r, sp_position r)) (set rows)"
    by (simp add: unique_sequence_position_def distinct_map)
  from inj_onD [OF this _ assms(2,3)] assms(4,5) show ?thesis by simp
qed

lemma existing_entry:
  assumes "maybeSingle (filter (\<lambda>r. sp_id r = spid \<and> in_sequence sid r) rows) = Inr (Some e)"
  shows "e \<in> set rows" "sp_id e = spid" "in_sequence sid e"
proof -
  from assms have "filter (\<lambda>r. sp_id r = spid \<and> in_sequence sid r) rows = [e]"
    by (rule maybeSingle_SomeD)
  then have "e \<in> set (filter (\<lambda>r. sp_id r = spid \<and> in_sequence sid r) rows)" by simp
  then show "e \<in> set rows" "sp_id e = spid" "in_sequence sid e" by simp_all
qed

lemma existing_entry_found:
  assumes "primary_key rows" "e \<in> set rows" "in_sequence sid e"
  shows "maybeSingle (filter (\<lambda>r. sp_id r = sp_id e \<and> in_sequence sid r) rows) = Inr (Some e)"
proof -
  have "filter (\<lambda>r. sp_id r = sp_id e \<and> in_sequence sid r) rows
          = filter (in_sequence sid) (filter (\<lambda>r. sp_id r = sp_id e) rows)"
    by (simp add: conj_commute)
  with filter_id_present [OF assms(1,2)] assms(3) show ?thesis by simp
qed

lemma primary_key_filter: "primary_key rows \<Longrightarrow> primary_key (filter P rows)"
  by (simp add: primary_key_def distinct_map_filter)

lemma unique_filter: "unique_sequence_position rows \<Longrightarrow> unique_sequence_position (filter P rows)"
  by (simp add: unique_sequence_position_def distinct_map_filter)

lemma filter_filter_absorb: "\<forall>x\<in>set xs. P x \<longrightarrow> Q x \<Longrightarrow> filter P (filter Q xs) = filter P xs"
  by (induction xs) auto

text \<open>What Remove does once ownership is settled and the entry is found.\<close>

lemma remove_run:
  assumes ok: "schema_ok st"
      and own: "verifySequenceOwnership st sid uid = Inr owner"
      and ex: "e \<in> set (sequence_poses st)" "sp_id e = spid" "in_sequence sid e"
      and avd: "spid \<notin> set (unavailable st)"
      and av: "\<forall>x\<in>set (select_id_position st sid (\<lambda>q. sp_position e < q) True).
                 fst x \<notin> set (unavailable st)"
  shows "removeSequencePose st uid sid spid =
           (Inr (), applied st
                      (DeleteRow spid # updates (- 1) (select_id_position st sid (\<lambda>q. sp_position e < q) True))
                      (shift_rows sid (\<lambda>q. sp_position e < q) (- 1)
                         (filter (\<lambda>r. sp_id r \<noteq> spid) (sequence_poses st))))"
proof -
  let ?rows = "sequence_poses st"
  let ?dp = "sp_position e"
  let ?rowsD = "filter (\<lambda>r. sp_id r \<noteq> spid) ?rows"
  let ?st1 = "applied st [DeleteRow spid] ?rowsD"
  from ok have pk: "primary_key ?rows" and uq: "unique_sequence_position ?rows"
    by (simp_all add: schema_ok_def)
  have found: "maybeSingle (filter (\<lambda>r. sp_id r = spid \<and> in_sequence sid r) ?rows) = Inr (Some e)"
    using existing_entry_found [OF pk ex(1,3)] ex(2) by simp
  have del: "delete_row spid st = (Inr (), ?st1)" using avd by (simp add: delete_row_eq)
  have pk1: "primary_key (sequence_poses ?st1)" using pk by (simp add: primary_key_filter)
  have uq1: "unique_sequence_position (sequence_poses ?st1)" using uq by (simp add: unique_filter)
  have gap: "\<forall>r\<in>set (sequence_poses ?st1). in_sequence sid r \<longrightarrow> sp_position r \<noteq> ?dp"
  proof (intro ballI impI notI)
    fix r assume r: "r \<in> set (sequence_poses ?st1)" "in_sequence sid r" "sp_position r = ?dp"
    then have "r \<in> set ?rows" "sp_id r \<noteq> spid" by simp_all
    moreover from uq_inj [OF uq this(1) ex(1)] r ex(3) have "r = e" by (simp add: in_sequence_def)
    ultimately show False using ex(2) by simp
  qed
  have "\<forall>r\<in>set ?rows. in_sequence sid r \<and> ?dp < sp_position r \<longrightarrow> sp_id r \<noteq> spid"
  proof (intro ballI impI)
    fix r assume r: "r \<in> set ?rows" "in_sequence sid r \<and> ?dp < sp_position r"
    show "sp_id r \<noteq> spid"
    proof
      assume "sp_id r = spid"
      with pk_inj [OF pk r(1) ex(1)] ex(2) have "r = e" by simp
      with r(2) show False by simp
    qed
  qed
  then have "filter (\<lambda>r. in_sequence sid r \<and> ?dp < sp_position r) ?rowsD
               = filter (\<lambda>r. in_sequence sid r \<and> ?dp < sp_position r) ?rows"
    by (rule filter_filter_absorb)
  then have sel: "select_id_position ?st1 sid (\<lambda>q. ?dp < q) True
                    = select_id_position st sid (\<lambda>q. ?dp < q) True"
    by (simp only: select_id_position_def applied_fields)
  have av1: "\<forall>x\<in>set (select_id_position ?st1 sid (\<lambda>q. ?dp < q) True).
               fst x \<notin> set (unavailable ?st1)"
    unfolding sel using av by simp
  from shiftPositionsDown_succeeds [OF pk1 uq1 gap av1]
  have "shiftPositionsDown ?st1 sid ?dp =
          (Inr (), applied st (DeleteRow spid # updates (- 1) (select_id_position st sid (\<lambda>q. ?dp < q) True))
                     (shift_rows sid (\<lambda>q. ?dp < q) (- 1) ?rowsD))"
    by (simp add: sel)
  then show ?thesis
    unfolding removeSequencePose_def using own found del by simp
qed

lemma remove_dense:
  assumes ok: "schema_ok st" and dn: "dense st sid"
      and ex: "e \<in> set (sequence_poses st)" "sp_id e = spid" "in_sequence sid e"
  defines "rows' \<equiv> shift_rows sid (\<lambda>q. sp_position e < q) (- 1)
                      (filter (\<lambda>r. sp_id r \<noteq> spid) (sequence_poses st))"
  shows "dense (applied st js rows') sid \<and>
         length (positions_of (applied st js rows') sid) + 1 = length (positions_of st sid)"
proof -
  let ?rows = "sequence_poses st"
  let ?dp = "sp_position e"
  let ?ps = "positions_of st sid"
  from ok have pk: "primary_key ?rows" and uq: "unique_sequence_position ?rows"
    by (simp_all add: schema_ok_def)
  have same: "sp_id r \<noteq> spid \<longleftrightarrow> sp_position r \<noteq> ?dp"
    if "r \<in> set (filter (in_sequence sid) ?rows)" for r
  proof -
    from that have r: "r \<in> set ?rows" "in_sequence sid r" by simp_all
    show ?thesis
    proof
      assume n: "sp_id r \<noteq> spid"
      show "sp_position r \<noteq> ?dp"
      proof
        assume "sp_position r = ?dp"
        with uq_inj [OF uq r(1) ex(1)] r(2) ex(3) have "r = e" by (simp add: in_sequence_def)
        with n ex(2) show False by simp
      qed
    next
      assume n: "sp_position r \<noteq> ?dp"
      show "sp_id r \<noteq> spid"
      proof
        assume "sp_id r = spid"
        with pk_inj [OF pk r(1) ex(1)] ex(2) have "r = e" by simp
        with n show False by simp
      qed
    qed
  qed
  have "filter (in_sequence sid) (filter (\<lambda>r. sp_id r \<noteq> spid) ?rows)
          = filter (\<lambda>r. sp_id r \<noteq> spid) (filter (in_sequence sid) ?rows)"
    by (simp add: conj_commute)
  also have "\<dots> = filter (\<lambda>r. sp_position r \<noteq> ?dp) (filter (in_sequence sid) ?rows)"
    by (rule filter_cong [OF refl]) (rule same)
  finally have "map sp_position (filter (in_sequence sid) (filter (\<lambda>r. sp_id r \<noteq> spid) ?rows))
                  = filter (\<lambda>q. q \<noteq> ?dp) ?ps"
    by (simp add: positions_of_def filter_map comp_def)
  then have e: "positions_of (applied st js rows') sid
                  = map (\<lambda>q. if ?dp < q then q - 1 else q) (filter (\<lambda>q. q \<noteq> ?dp) ?ps)"
    by (simp add: rows'_def positions_shift_rows)
  from dn have "distinct ?ps" "set ?ps = {1..int (length ?ps)}" by (simp_all add: dense_iff)
  moreover have "?dp \<in> set ?ps" using ex by (simp add: positions_of_def)
  ultimately show ?thesis
    unfolding dense_iff e using dense_list_remove [of ?ps ?dp] by simp
qed

lemma untouched_below:
  assumes pk: "primary_key rows"
      and ex: "e \<in> set rows" "sp_id e = spid"
      and r: "r \<in> set rows" "sp_position r < sp_position e"
  shows "r \<in> set (shift_rows sid (\<lambda>q. sp_position e < q) (- 1) (filter (\<lambda>r. sp_id r \<noteq> spid) rows))"
proof -
  have "sp_id r \<noteq> spid"
  proof
    assume "sp_id r = spid"
    with pk_inj [OF pk r(1) ex(1)] ex(2) have "r = e" by simp
    with r(2) show False by simp
  qed
  with r(1) have m: "r \<in> set (filter (\<lambda>r. sp_id r \<noteq> spid) rows)" by simp
  have "r = (if in_sequence sid r \<and> sp_position e < sp_position r
             then r\<lparr>sp_position := sp_position r + - 1\<rparr> else r)"
    using r(2) by simp
  then show ?thesis unfolding shift_rows_def set_map using m by (rule image_eqI)
qed

text \<open>
  Claim C4. On a dense sequence in a schema-valid store whose rows are all writable,
  Remove by the owner of an entry of the sequence succeeds. It sends the delete of the
  entry first, then one update per entry of the sequence at a position above the deleted
  one, each to its position minus one, in strictly ascending order of position. The
  table it leaves is the old one without the entry and with exactly those entries moved
  down by one; the entries below the deleted position are the same rows as before, and
  the sequence is dense with one entry fewer.
\<close>

theorem remove_postcondition:
  assumes ok: "schema_ok st" and dn: "dense st sid" and av: "unavailable st = []"
      and own: "verifySequenceOwnership st sid uid = Inr owner"
      and ex: "e \<in> set (sequence_poses st)" "sp_id e = spid" "in_sequence sid e"
  shows "\<exists>st' shifted.
           removeSequencePose st uid sid spid = (Inr (), st') \<and>
           set shifted = {r \<in> set (sequence_poses st). in_sequence sid r \<and> sp_position e < sp_position r} \<and>
           distinct shifted \<and>
           sorted_wrt (\<lambda>a b. sp_position a < sp_position b) shifted \<and>
           journal st' = journal st
              @ DeleteRow spid # map (\<lambda>r. UpdatePosition (sp_id r) (sp_position r - 1)) shifted \<and>
           sequence_poses st' = shift_rows sid (\<lambda>q. sp_position e < q) (- 1)
                                  (filter (\<lambda>r. sp_id r \<noteq> spid) (sequence_poses st)) \<and>
           (\<forall>r\<in>set (sequence_poses st). sp_position r < sp_position e \<longrightarrow> r \<in> set (sequence_poses st')) \<and>
           dense st' sid \<and>
           length (positions_of st' sid) + 1 = length (positions_of st sid)"
proof -
  let ?dp = "sp_position e"
  let ?shifted = "order_by_position True
                    (filter (\<lambda>r. in_sequence sid r \<and> ?dp < sp_position r) (sequence_poses st))"
  let ?rows' = "shift_rows sid (\<lambda>q. ?dp < q) (- 1) (filter (\<lambda>r. sp_id r \<noteq> spid) (sequence_poses st))"
  let ?js = "DeleteRow spid # updates (- 1) (select_id_position st sid (\<lambda>q. ?dp < q) True)"
  from ok have pk: "primary_key (sequence_poses st)" by (simp add: schema_ok_def)
  have run: "removeSequencePose st uid sid spid = (Inr (), applied st ?js ?rows')"
    using av by (intro remove_run [OF ok own ex]) simp_all
  note sel = ordered_selection [OF ok, where sid = sid and P = "\<lambda>q. ?dp < q" and asc = True]
  note d = remove_dense [OF ok dn ex, of ?js]
  have below: "\<forall>r\<in>set (sequence_poses st). sp_position r < ?dp \<longrightarrow> r \<in> set ?rows'"
    using untouched_below [OF pk ex(1,2)] by blast
  show ?thesis
    apply (rule exI [of _ "applied st ?js ?rows'"], rule exI [of _ ?shifted])
    using run sel d below by (simp add: updates_select)
qed

lemma remove_collapse:
  "removeSequencePose example_store ''u1'' ''s1'' ''B'' =
     (Inr (), example_store\<lparr>
        sequence_poses := [entry ''A'' 1, entry ''C'' 2, entry ''D'' 3],
        journal := [DeleteRow ''B'', UpdatePosition ''C'' 2, UpdatePosition ''D'' 3]\<rparr>)"
  by code_simp

theorem remove_postcondition_witness:
  "\<exists>st' shifted.
     removeSequencePose example_store ''u1'' ''s1'' ''B'' = (Inr (), st') \<and>
     set shifted = {r \<in> set (sequence_poses example_store).
                      in_sequence ''s1'' r \<and> sp_position (entry ''B'' 2) < sp_position r} \<and>
     distinct shifted \<and>
     sorted_wrt (\<lambda>a b. sp_position a < sp_position b) shifted \<and>
     journal st' = journal example_store
        @ DeleteRow ''B'' # map (\<lambda>r. UpdatePosition (sp_id r) (sp_position r - 1)) shifted \<and>
     sequence_poses st' = shift_rows ''s1'' (\<lambda>q. sp_position (entry ''B'' 2) < q) (- 1)
                            (filter (\<lambda>r. sp_id r \<noteq> ''B'') (sequence_poses example_store)) \<and>
     (\<forall>r\<in>set (sequence_poses example_store).
         sp_position r < sp_position (entry ''B'' 2) \<longrightarrow> r \<in> set (sequence_poses st')) \<and>
     dense st' ''s1'' \<and>
     length (positions_of st' ''s1'') + 1 = length (positions_of example_store ''s1'')"
proof -
  have av: "unavailable example_store = []" by (simp add: example_defs)
  have ex: "entry ''B'' 2 \<in> set (sequence_poses example_store)" "sp_id (entry ''B'' 2) = ''B''"
    "in_sequence ''s1'' (entry ''B'' 2)"
    by (simp_all add: example_defs in_sequence_def)
  from remove_postcondition [OF example_schema_ok example_dense av example_owner ex]
  show ?thesis .
qed

section \<open>Move\<close>

lemma dense_position_exists:
  assumes "dense st sid" "1 \<le> q" "q \<le> int (length (positions_of st sid))"
  obtains r where "r \<in> set (sequence_poses st)" "in_sequence sid r" "sp_position r = q"
proof -
  from assms have "q \<in> set (positions_of st sid)" by (simp add: dense_iff)
  then obtain r where "r \<in> set (filter (in_sequence sid) (sequence_poses st))" "q = sp_position r"
    unfolding positions_of_def set_map by (rule imageE)
  with that show thesis by auto
qed

lemma sort_key_nonempty:
  assumes "y \<in> set xs"
  obtains x rest where "sort_key f xs = x # rest"
proof (cases "sort_key f xs")
  case Nil
  then have "set (sort_key f xs) = {}" by simp
  then have "set xs = {}" by simp
  with assms show ?thesis by simp
next
  case (Cons x rest)
  then show ?thesis by (rule that)
qed

lemma rev_sort_key_nonempty:
  assumes "y \<in> set xs"
  obtains x rest where "rev (sort_key f xs) = x # rest"
proof (cases "rev (sort_key f xs)")
  case Nil
  then have "set (rev (sort_key f xs)) = {}" by simp
  then have "set xs = {}" by simp
  with assms show ?thesis by simp
next
  case (Cons x rest)
  then show ?thesis by (rule that)
qed

lemma sort_key_head_least:
  assumes "sort_key f xs = x # rest" "y \<in> set xs"
  shows "x \<in> set xs \<and> f x \<le> f y"
proof -
  have "sorted (map f (x # rest))" unfolding assms(1) [symmetric] by (rule sorted_sort_key)
  moreover have s: "set (x # rest) = set xs" unfolding assms(1) [symmetric] by simp
  ultimately show ?thesis using assms(2) by auto
qed

lemma sort_key_last_greatest:
  assumes "rev (sort_key f xs) = x # rest" "y \<in> set xs"
  shows "x \<in> set xs \<and> f y \<le> f x"
proof -
  from assms(1) have e: "sort_key f xs = rev rest @ [x]" by (simp add: rev_swap)
  have "sorted (map f (rev rest @ [x]))" unfolding e [symmetric] by (rule sorted_sort_key)
  moreover have s: "set (rev rest @ [x]) = set xs" unfolding e [symmetric] by simp
  ultimately show ?thesis using assms(2) by (auto simp: sorted_append)
qed

text \<open>
  The first update of a shift that writes the position another entry of the same
  sequence still holds is refused, and the loop ends there with the table as it was.
\<close>

lemma first_shift_blocked:
  assumes pk: "primary_key (sequence_poses st)" and uq: "unique_sequence_position (sequence_poses st)"
      and x: "x \<in> set (sequence_poses st)" and e: "e \<in> set (sequence_poses st)"
      and same: "sp_sequence_id x = sp_sequence_id e" and other: "sp_position x \<noteq> sp_position e"
      and v: "v + d = sp_position e"
  shows "\<exists>err. shift_each d ((sp_id x, v) # rest) st =
           (Inl (StoreError err), applied st [UpdatePosition (sp_id x) (sp_position e)] (sequence_poses st)) \<and>
           err = (if sp_id x \<in> set (unavailable st) then Unavailable else UniqueViolation)"
proof -
  have "e \<noteq> x" using other by auto
  with e same have "\<not> (\<forall>r'\<in>set (sequence_poses st).
      sp_sequence_id r' = sp_sequence_id x \<and> sp_position r' = sp_position e \<longrightarrow> r' = x)" by auto
  with unique_set_position_iff [OF pk uq x, of "sp_position e"]
  have "\<not> unique_sequence_position (set_position (sp_id x) (sp_position e) (sequence_poses st))"
    by simp
  then show ?thesis by (simp add: update_position_eq v)
qed

lemma reorder_blocked:
  assumes ok: "schema_ok st" and dn: "dense st sid"
      and ex: "e \<in> set (sequence_poses st)" "in_sequence sid e"
      and new: "new \<noteq> sp_position e" "1 \<le> new" "new \<le> int (length (positions_of st sid))"
  shows "\<exists>x. x \<in> set (sequence_poses st) \<and> in_sequence sid x \<and>
           sp_position x = (if sp_position e < new then sp_position e + 1 else sp_position e - 1) \<and>
           reorder st sid spid (sp_position e) new =
             (Inl (StoreError (if sp_id x \<in> set (unavailable st) then Unavailable else UniqueViolation)),
              applied st [UpdatePosition (sp_id x) (sp_position e)] (sequence_poses st))"
proof -
  let ?rows = "sequence_poses st"
  let ?old = "sp_position e"
  let ?n = "int (length (positions_of st sid))"
  from ok have pk: "primary_key ?rows" and uq: "unique_sequence_position ?rows"
    by (simp_all add: schema_ok_def)
  have gnp: "getNextPosition st sid = ?n + 1" by (rule getNextPosition_dense [OF dn])
  have old: "1 \<le> ?old" "?old \<le> ?n" using dense_positions_bounded [OF dn ex] by simp_all
  show ?thesis
  proof (cases "?old < new")
    case True
    let ?sel = "filter (\<lambda>r. in_sequence sid r \<and> ?old < sp_position r \<and> sp_position r \<le> new) ?rows"
    from True new(3) old(1) have "1 \<le> ?old + 1" "?old + 1 \<le> ?n" by simp_all
    from dense_position_exists [OF dn this]
    obtain y where y: "y \<in> set ?rows" "in_sequence sid y" "sp_position y = ?old + 1" by blast
    with True have ysel: "y \<in> set ?sel" by simp
    then obtain x rest where xs: "sort_key sp_position ?sel = x # rest"
      by (rule sort_key_nonempty)
    from sort_key_head_least [OF xs ysel] y(3)
    have x: "x \<in> set ?rows" "in_sequence sid x" "sp_position x = ?old + 1" by auto
    have same: "sp_sequence_id x = sp_sequence_id e" using x(2) ex(2) by (simp add: in_sequence_def)
    have other: "sp_position x \<noteq> sp_position e" using x(3) by simp
    have v: "(?old + 1) + - 1 = ?old" by simp
    have sel: "select_id_position st sid (\<lambda>p. ?old < p \<and> p \<le> new) True
                 = (sp_id x, ?old + 1) # map (\<lambda>r. (sp_id r, sp_position r)) rest"
      by (simp add: select_id_position_def order_by_position_def xs x(3))
    from first_shift_blocked [OF pk uq x(1) ex(1) same other v]
    have "shift_each (- 1) (select_id_position st sid (\<lambda>p. ?old < p \<and> p \<le> new) True) st =
        (Inl (StoreError (if sp_id x \<in> set (unavailable st) then Unavailable else UniqueViolation)),
         applied st [UpdatePosition (sp_id x) ?old] ?rows)"
      unfolding sel by blast
    with True new gnp have "reorder st sid spid ?old new =
        (Inl (StoreError (if sp_id x \<in> set (unavailable st) then Unavailable else UniqueViolation)),
         applied st [UpdatePosition (sp_id x) ?old] ?rows)"
      by (simp add: reorder_def)
    with x True show ?thesis by auto
  next
    case False
    with new(1) have lt: "new < ?old" by simp
    let ?sel = "filter (\<lambda>r. in_sequence sid r \<and> new \<le> sp_position r \<and> sp_position r < ?old) ?rows"
    from lt new(2) old(2) have "1 \<le> ?old - 1" "?old - 1 \<le> ?n" by simp_all
    from dense_position_exists [OF dn this]
    obtain y where y: "y \<in> set ?rows" "in_sequence sid y" "sp_position y = ?old - 1" by blast
    with lt have ysel: "y \<in> set ?sel" by simp
    then obtain x rest where xs: "rev (sort_key sp_position ?sel) = x # rest"
      by (rule rev_sort_key_nonempty)
    from sort_key_last_greatest [OF xs ysel] y(3)
    have x: "x \<in> set ?rows" "in_sequence sid x" "sp_position x = ?old - 1" by auto
    have same: "sp_sequence_id x = sp_sequence_id e" using x(2) ex(2) by (simp add: in_sequence_def)
    have other: "sp_position x \<noteq> sp_position e" using x(3) by simp
    have v: "(?old - 1) + 1 = ?old" by simp
    have sel: "select_id_position st sid (\<lambda>p. new \<le> p \<and> p < ?old) False
                 = (sp_id x, ?old - 1) # map (\<lambda>r. (sp_id r, sp_position r)) rest"
      by (simp add: select_id_position_def order_by_position_def xs x(3))
    from first_shift_blocked [OF pk uq x(1) ex(1) same other v]
    have "shift_each 1 (select_id_position st sid (\<lambda>p. new \<le> p \<and> p < ?old) False) st =
        (Inl (StoreError (if sp_id x \<in> set (unavailable st) then Unavailable else UniqueViolation)),
         applied st [UpdatePosition (sp_id x) ?old] ?rows)"
      unfolding sel by blast
    with lt new gnp have "reorder st sid spid ?old new =
        (Inl (StoreError (if sp_id x \<in> set (unavailable st) then Unavailable else UniqueViolation)),
         applied st [UpdatePosition (sp_id x) ?old] ?rows)"
      by (simp add: reorder_def)
    with x lt show ?thesis by auto
  qed
qed

lemma fetch_existing:
  assumes ok: "schema_ok st" and e: "e \<in> set (sequence_poses st)"
  shows "\<exists>dto. fetchSequencePoseDto st (sp_id e) = Inr dto \<and>
           dto_id dto = sp_id e \<and> dto_position dto = sp_position e"
proof -
  from ok have pk: "primary_key (sequence_poses st)" by (simp add: schema_ok_def)
  from ok e have "sp_pose_id e \<in> pose_id ` set (poses st)"
    by (auto simp: schema_ok_def list_all_iff)
  then obtain pose where "find (\<lambda>p. pose_id p = sp_pose_id e) (poses st) = Some pose"
    by (rule find_pose)
  with filter_id_present [OF pk e] show ?thesis by (simp add: fetchSequencePoseDto_def)
qed

text \<open>A Move that returns an entry has written nothing: it asked for no position or for
  the position the entry already has.\<close>

lemma move_success_unchanged:
  assumes ok: "schema_ok st" and dn: "dense st sid"
      and succ: "updateSequencePose st uid sid spid cmd = (Inr dto, st')"
  shows "st' = st"
proof -
  obtain owner where own: "verifySequenceOwnership st sid uid = Inr owner"
    using succ by (cases "verifySequenceOwnership st sid uid") (simp_all add: updateSequencePose_def)
  let ?found = "maybeSingle (filter (\<lambda>r. sp_id r = spid \<and> in_sequence sid r) (sequence_poses st))"
  obtain e where found: "?found = Inr (Some e)"
    using succ own
    by (cases ?found) (auto simp: updateSequencePose_def split: option.splits)
  note ex = existing_entry [OF found]
  from succ own found have sup: "upd_duration cmd = None" "upd_instructions cmd = None"
    by (auto simp: updateSequencePose_def split: if_splits)
  show ?thesis
  proof (cases "upd_position cmd")
    case None
    with succ own found sup show ?thesis
      by (auto simp: updateSequencePose_def split: sum.splits)
  next
    case (Some new)
    show ?thesis
    proof (cases "new = sp_position e")
      case True
      with Some succ own found sup show ?thesis
        by (auto simp: updateSequencePose_def split: sum.splits)
    next
      case False
      have "\<exists>err s. reorder st sid spid (sp_position e) new = (Inl err, s)"
      proof (cases "new < 1 \<or> new \<ge> getNextPosition st sid")
        case True
        then show ?thesis by (auto simp: reorder_def)
      next
        case False
        with getNextPosition_dense [OF dn]
        have "1 \<le> new" "new \<le> int (length (positions_of st sid))" by simp_all
        from reorder_blocked [OF ok dn ex(1,3) \<open>new \<noteq> sp_position e\<close> this, of spid]
        show ?thesis by blast
      qed
      with Some False succ own found sup show ?thesis
        by (auto simp: updateSequencePose_def)
    qed
  qed
qed

lemma insert_phase_Inr:
  assumes dn: "dense st sid"
      and p: "p = (case position of Some q \<Rightarrow> q | None \<Rightarrow> getNextPosition st sid)"
      and le: "p \<le> getNextPosition st sid"
      and ph: "(case position of
                  Some q \<Rightarrow> if q < getNextPosition st sid then shiftPositionsUp st sid q else (Inr (), st)
                | None \<Rightarrow> (Inr (), st)) = (Inr u, st1)"
  shows "\<forall>x\<in>set (select_id_position st sid (\<lambda>q. p \<le> q) False). fst x \<notin> set (unavailable st)"
proof (cases "p < getNextPosition st sid")
  case True
  with p obtain q where "position = Some q" "q = p" by (cases position) auto
  with True ph have "shift_each 1 (select_id_position st sid (\<lambda>q. p \<le> q) False) st = (Inr u, st1)"
    by (simp add: shiftPositionsUp_def)
  then show ?thesis by (rule shift_each_Inr_available)
next
  case False
  with le have e: "p = getNextPosition st sid" by simp
  have "\<forall>r\<in>set (sequence_poses st). in_sequence sid r \<longrightarrow> \<not> p \<le> sp_position r"
    using dense_positions_bounded [OF dn] e getNextPosition_dense [OF dn] by fastforce
  then have "select_id_position st sid (\<lambda>q. p \<le> q) False = []"
    by (auto simp: select_id_position_def order_by_position_def filter_empty_conv)
  then show ?thesis by simp
qed

lemma insert_success_dense:
  assumes ok: "schema_ok st" and dn: "dense st sid"
      and pos: "\<forall>q. add_position cmd = Some q \<longrightarrow> 1 \<le> q"
      and succ: "addPoseToSequence st uid sid cmd gen = (Inr dto, st')"
  shows "dense st' sid \<and> length (positions_of st' sid) = length (positions_of st sid) + 1"
proof -
  obtain owner where own: "verifySequenceOwnership st sid uid = Inr owner"
    using succ by (cases "verifySequenceOwnership st sid uid") (simp_all add: addPoseToSequence_def)
  obtain v where ver: "resolvePoseVersion st (add_poseId cmd) (add_poseVersion cmd) = Inr v"
    using succ own
    by (cases "resolvePoseVersion st (add_poseId cmd) (add_poseVersion cmd)")
       (simp_all add: addPoseToSequence_def)
  define p where "p = (case add_position cmd of Some q \<Rightarrow> q | None \<Rightarrow> getNextPosition st sid)"
  define new where "new = \<lparr>sp_id = gen_id gen, sp_sequence_id = sid, sp_pose_id = add_poseId cmd,
                       sp_pose_version_id = v, sp_position = p, sp_added_at = gen_added_at gen\<rparr>"
  let ?phase = "case add_position cmd of
                  Some q \<Rightarrow> if q < getNextPosition st sid then shiftPositionsUp st sid q else (Inr (), st)
                | None \<Rightarrow> (Inr (), st)"
  note gnp = getNextPosition_dense [OF dn]
  have le: "p \<le> getNextPosition st sid"
    using succ own ver by (simp add: addPoseToSequence_def Let_def p_def split: if_splits)
  have rest: "(case ?phase of
                 (Inl e, st1) \<Rightarrow> (Inl e, st1)
               | (Inr _, st1) \<Rightarrow>
                  (case insert_row new st1 of
                     (Inl e, st2) \<Rightarrow> (Inl e, st2)
                   | (Inr _, st2) \<Rightarrow>
                      (case fetchSequencePoseDto st2 (gen_id gen) of
                         Inl e \<Rightarrow> (Inl e, st2)
                       | Inr dto \<Rightarrow> (Inr dto, st2)))) = (Inr dto, st')"
    using succ own ver le unfolding new_def p_def by (simp add: addPoseToSequence_def Let_def)
  then obtain u st1 where ph: "?phase = (Inr u, st1)"
    by (cases ?phase; cases "fst ?phase") auto
  note av = insert_phase_Inr [OF dn p_def le ph]
  from insert_phase [OF ok dn p_def le av] ph
  have st1: "st1 = applied st (updates 1 (select_id_position st sid (\<lambda>q. p \<le> q) False))
                     (shift_rows sid (\<lambda>q. p \<le> q) 1 (sequence_poses st))" by simp
  from rest ph obtain u' st2 where ins: "insert_row new st1 = (Inr u', st2)"
    by (cases "insert_row new st1"; cases "fst (insert_row new st1)") auto
  then have avn: "gen_id gen \<notin> set (unavailable st)"
    and fresh: "gen_id gen \<notin> sp_id ` set (sequence_poses st)"
    unfolding st1 by (auto simp: insert_row_eq new_def split: if_splits simp flip: set_map)
  from insert_run [OF ok dn own ver p_def le av avn fresh new_def] succ
  have "st' = applied st (updates 1 (select_id_position st sid (\<lambda>q. p \<le> q) False) @ [InsertRow new])
                (shift_rows sid (\<lambda>q. p \<le> q) 1 (sequence_poses st) @ [new])" by auto
  moreover have "1 \<le> p" using pos gnp by (cases "add_position cmd") (simp_all add: p_def)
  moreover have "p \<le> int (length (positions_of st sid)) + 1" using le gnp by simp
  ultimately show ?thesis using insert_dense [OF dn, of p new] by (simp add: new_def)
qed

lemma remove_success_dense:
  assumes ok: "schema_ok st" and dn: "dense st sid"
      and succ: "removeSequencePose st uid sid spid = (Inr u, st')"
  shows "dense st' sid \<and> length (positions_of st' sid) + 1 = length (positions_of st sid)"
proof -
  obtain owner where own: "verifySequenceOwnership st sid uid = Inr owner"
    using succ by (cases "verifySequenceOwnership st sid uid") (simp_all add: removeSequencePose_def)
  let ?found = "maybeSingle (filter (\<lambda>r. sp_id r = spid \<and> in_sequence sid r) (sequence_poses st))"
  obtain e where found: "?found = Inr (Some e)"
    using succ own
    by (cases ?found) (auto simp: removeSequencePose_def split: option.splits)
  note ex = existing_entry [OF found]
  let ?rowsD = "filter (\<lambda>r. sp_id r \<noteq> spid) (sequence_poses st)"
  let ?st1 = "applied st [DeleteRow spid] ?rowsD"
  from succ own found have avd: "spid \<notin> set (unavailable st)"
    and down: "shiftPositionsDown ?st1 sid (sp_position e) = (Inr u, st')"
    by (auto simp: removeSequencePose_def delete_row_eq split: if_splits)
  from down have "\<forall>x\<in>set (select_id_position ?st1 sid (\<lambda>q. sp_position e < q) True).
      fst x \<notin> set (unavailable ?st1)"
    unfolding shiftPositionsDown_def by (rule shift_each_Inr_available)
  moreover have "set (select_id_position st sid (\<lambda>q. sp_position e < q) True)
                   \<subseteq> set (select_id_position ?st1 sid (\<lambda>q. sp_position e < q) True)"
  proof -
    from ok have pk: "primary_key (sequence_poses st)" by (simp add: schema_ok_def)
    have "sp_id r \<noteq> spid" if "r \<in> set (sequence_poses st)" "sp_position e < sp_position r" for r
    proof
      assume "sp_id r = spid"
      with pk_inj [OF pk that(1) ex(1)] ex(2) have "r = e" by simp
      with that(2) show False by simp
    qed
    then show ?thesis by (auto simp: set_select_id_position)
  qed
  ultimately have av: "\<forall>x\<in>set (select_id_position st sid (\<lambda>q. sp_position e < q) True).
      fst x \<notin> set (unavailable st)" by auto
  from remove_run [OF ok own ex avd av] succ
  have "st' = applied st
           (DeleteRow spid # updates (- 1) (select_id_position st sid (\<lambda>q. sp_position e < q) True))
           (shift_rows sid (\<lambda>q. sp_position e < q) (- 1) ?rowsD)" by simp
  with remove_dense [OF ok dn ex] show ?thesis by simp
qed

section \<open>The schema constraints are kept\<close>

lemma map_sp_pose_id_shift_rows [simp]:
  "map sp_pose_id (shift_rows sid P d rows) = map sp_pose_id rows"
  by (induction rows) (simp_all add: shift_rows_def)

lemma schema_ok_applied:
  assumes "schema_ok st" "primary_key rows" "unique_sequence_position rows"
    "set (map sp_pose_id rows) \<subseteq> pose_id ` set (poses st)"
  shows "schema_ok (applied st js rows)"
  using assms by (auto simp: schema_ok_def list_all_iff)

lemma schema_ok_pose_ids:
  "schema_ok st \<Longrightarrow> set (map sp_pose_id (sequence_poses st)) \<subseteq> pose_id ` set (poses st)"
  by (auto simp: schema_ok_def list_all_iff)

lemma insert_success_schema:
  assumes ok: "schema_ok st" and dn: "dense st sid"
      and succ: "addPoseToSequence st uid sid cmd gen = (Inr dto, st')"
  shows "schema_ok st'"
proof -
  obtain owner where own: "verifySequenceOwnership st sid uid = Inr owner"
    using succ by (cases "verifySequenceOwnership st sid uid") (simp_all add: addPoseToSequence_def)
  obtain v where ver: "resolvePoseVersion st (add_poseId cmd) (add_poseVersion cmd) = Inr v"
    using succ own
    by (cases "resolvePoseVersion st (add_poseId cmd) (add_poseVersion cmd)")
       (simp_all add: addPoseToSequence_def)
  define p where "p = (case add_position cmd of Some q \<Rightarrow> q | None \<Rightarrow> getNextPosition st sid)"
  define new where "new = \<lparr>sp_id = gen_id gen, sp_sequence_id = sid, sp_pose_id = add_poseId cmd,
                       sp_pose_version_id = v, sp_position = p, sp_added_at = gen_added_at gen\<rparr>"
  let ?phase = "case add_position cmd of
                  Some q \<Rightarrow> if q < getNextPosition st sid then shiftPositionsUp st sid q else (Inr (), st)
                | None \<Rightarrow> (Inr (), st)"
  let ?rows1 = "shift_rows sid (\<lambda>q. p \<le> q) 1 (sequence_poses st)"
  have le: "p \<le> getNextPosition st sid"
    using succ own ver by (simp add: addPoseToSequence_def Let_def p_def split: if_splits)
  have rest: "(case ?phase of
                 (Inl e, st1) \<Rightarrow> (Inl e, st1)
               | (Inr _, st1) \<Rightarrow>
                  (case insert_row new st1 of
                     (Inl e, st2) \<Rightarrow> (Inl e, st2)
                   | (Inr _, st2) \<Rightarrow>
                      (case fetchSequencePoseDto st2 (gen_id gen) of
                         Inl e \<Rightarrow> (Inl e, st2)
                       | Inr dto \<Rightarrow> (Inr dto, st2)))) = (Inr dto, st')"
    using succ own ver le unfolding new_def p_def by (simp add: addPoseToSequence_def Let_def)
  then obtain u st1 where ph: "?phase = (Inr u, st1)"
    by (cases ?phase; cases "fst ?phase") auto
  note av = insert_phase_Inr [OF dn p_def le ph]
  note phase = insert_phase [OF ok dn p_def le av]
  with ph have st1: "st1 = applied st (updates 1 (select_id_position st sid (\<lambda>q. p \<le> q) False)) ?rows1"
    by simp
  from rest ph obtain u' st2 where ins: "insert_row new st1 = (Inr u', st2)"
    by (cases "insert_row new st1"; cases "fst (insert_row new st1)") auto
  then have avn: "gen_id gen \<notin> set (unavailable st)"
    and fresh: "gen_id gen \<notin> sp_id ` set (sequence_poses st)"
    unfolding st1 by (auto simp: insert_row_eq new_def split: if_splits simp flip: set_map)
  from insert_run [OF ok dn own ver p_def le av avn fresh new_def] succ
  have st': "st' = applied st (updates 1 (select_id_position st sid (\<lambda>q. p \<le> q) False) @ [InsertRow new])
                (?rows1 @ [new])" by auto
  from ok have pk: "primary_key (sequence_poses st)" by (simp add: schema_ok_def)
  have "primary_key (?rows1 @ [new])"
    using pk fresh by (simp add: primary_key_def new_def flip: set_map)
  moreover have "unique_sequence_position (?rows1 @ [new])"
    using phase by (intro unique_with_created) (simp_all add: new_def)
  moreover have "set (map sp_pose_id (?rows1 @ [new])) \<subseteq> pose_id ` set (poses st)"
    using schema_ok_pose_ids [OF ok] resolve_pose_exists [OF ok ver] by (simp add: new_def)
  ultimately show ?thesis unfolding st' by (rule schema_ok_applied [OF ok])
qed

lemma remove_success_schema:
  assumes ok: "schema_ok st"
      and succ: "removeSequencePose st uid sid spid = (Inr u, st')"
  shows "schema_ok st'"
proof -
  obtain owner where own: "verifySequenceOwnership st sid uid = Inr owner"
    using succ by (cases "verifySequenceOwnership st sid uid") (simp_all add: removeSequencePose_def)
  let ?found = "maybeSingle (filter (\<lambda>r. sp_id r = spid \<and> in_sequence sid r) (sequence_poses st))"
  obtain e where found: "?found = Inr (Some e)"
    using succ own
    by (cases ?found) (auto simp: removeSequencePose_def split: option.splits)
  note ex = existing_entry [OF found]
  from ok have pk: "primary_key (sequence_poses st)" and uq: "unique_sequence_position (sequence_poses st)"
    by (simp_all add: schema_ok_def)
  let ?rowsD = "filter (\<lambda>r. sp_id r \<noteq> spid) (sequence_poses st)"
  let ?st1 = "applied st [DeleteRow spid] ?rowsD"
  from succ own found have down: "shiftPositionsDown ?st1 sid (sp_position e) = (Inr u, st')"
    by (auto simp: removeSequencePose_def delete_row_eq split: if_splits)
  have pk1: "primary_key (sequence_poses ?st1)" using pk by (simp add: primary_key_filter)
  have uq1: "unique_sequence_position (sequence_poses ?st1)" using uq by (simp add: unique_filter)
  have gap: "\<forall>r\<in>set (sequence_poses ?st1). in_sequence sid r \<longrightarrow> sp_position r \<noteq> sp_position e"
  proof (intro ballI impI notI)
    fix r assume r: "r \<in> set (sequence_poses ?st1)" "in_sequence sid r" "sp_position r = sp_position e"
    then have "r \<in> set (sequence_poses st)" "sp_id r \<noteq> spid" by simp_all
    moreover from uq_inj [OF uq this(1) ex(1)] r ex(3) have "r = e" by (simp add: in_sequence_def)
    ultimately show False using ex(2) by simp
  qed
  from shiftPositionsDown_Inr [OF pk1 uq1 gap down]
  have st': "st' = applied st
      ([DeleteRow spid] @ updates (- 1) (select_id_position ?st1 sid (\<lambda>q. sp_position e < q) True))
      (shift_rows sid (\<lambda>q. sp_position e < q) (- 1) ?rowsD)"
    and u: "unique_sequence_position (shift_rows sid (\<lambda>q. sp_position e < q) (- 1) ?rowsD)"
    by simp_all
  have "primary_key (shift_rows sid (\<lambda>q. sp_position e < q) (- 1) ?rowsD)"
    using pk1 by (simp add: primary_key_def)
  moreover have "set (map sp_pose_id (shift_rows sid (\<lambda>q. sp_position e < q) (- 1) ?rowsD))
                   \<subseteq> pose_id ` set (poses st)"
    using schema_ok_pose_ids [OF ok] by auto
  ultimately show ?thesis unfolding st' using u by (intro schema_ok_applied [OF ok])
qed

section \<open>The dense-position invariant\<close>

text \<open>
  Claim C1, as amended. In a schema-valid store, for a sequence whose positions are
  exactly 1..N, every run that returns successfully leaves a schema-valid store in which
  the positions of the sequence are again exactly 1..N': N+1 after Insert, provided the
  supplied position (if any) is at least 1; N after Move; N-1 after Remove.
\<close>

theorem dense_positions_preserved:
  assumes "schema_ok st" "dense st sid"
  shows "(addPoseToSequence st uid sid addCommand gen = (Inr created, st1) \<and>
            (\<forall>q. add_position addCommand = Some q \<longrightarrow> 1 \<le> q) \<longrightarrow>
          schema_ok st1 \<and> dense st1 sid \<and>
          length (positions_of st1 sid) = length (positions_of st sid) + 1) \<and>
         (updateSequencePose st uid sid spid updateCommand = (Inr moved, st2) \<longrightarrow>
          schema_ok st2 \<and> dense st2 sid \<and>
          length (positions_of st2 sid) = length (positions_of st sid)) \<and>
         (removeSequencePose st uid sid spid = (Inr u, st3) \<longrightarrow>
          schema_ok st3 \<and> dense st3 sid \<and>
          length (positions_of st3 sid) + 1 = length (positions_of st sid))"
proof (intro conjI impI)
  assume a: "addPoseToSequence st uid sid addCommand gen = (Inr created, st1) \<and>
               (\<forall>q. add_position addCommand = Some q \<longrightarrow> 1 \<le> q)"
  then show "schema_ok st1" using insert_success_schema [OF assms] by blast
  from a insert_success_dense [OF assms, of addCommand uid gen created st1]
  show "dense st1 sid" "length (positions_of st1 sid) = length (positions_of st sid) + 1"
    by simp_all
next
  assume "updateSequencePose st uid sid spid updateCommand = (Inr moved, st2)"
  then have "st2 = st" by (rule move_success_unchanged [OF assms])
  with assms show "schema_ok st2" "dense st2 sid"
    "length (positions_of st2 sid) = length (positions_of st sid)" by simp_all
next
  assume r: "removeSequencePose st uid sid spid = (Inr u, st3)"
  then show "schema_ok st3" by (rule remove_success_schema [OF assms(1)])
  from remove_success_dense [OF assms r]
  show "dense st3 sid" "length (positions_of st3 sid) + 1 = length (positions_of st sid)"
    by simp_all
qed

lemma move_same_position_example:
  "updateSequencePose example_store ''u1'' ''s1'' ''B'' (move_command 2) =
     (Inr \<lparr>dto_id = ''B'', dto_poseId = ''p1'', dto_poseName = ''Tree'',
           dto_sanskritName = Some ''Vrksasana'', dto_imageUrl = None, dto_imageAlt = ''tree'',
           dto_position = 2, dto_addedAt = ''t0''\<rparr>, example_store)"
  by code_simp

theorem dense_positions_preserved_witness:
  "dense (example_store\<lparr>
        sequence_poses := [entry ''A'' 1, entry ''B'' 3, entry ''C'' 4, entry ''D'' 5,
                           (entry ''N'' 2)\<lparr>sp_pose_version_id := ''v2'', sp_added_at := ''t1''\<rparr>],
        journal := [UpdatePosition ''D'' 5, UpdatePosition ''C'' 4, UpdatePosition ''B'' 3,
                    InsertRow ((entry ''N'' 2)\<lparr>sp_pose_version_id := ''v2'', sp_added_at := ''t1''\<rparr>)]\<rparr>)
     ''s1'' \<and>
   dense example_store ''s1'' \<and>
   dense (example_store\<lparr>
        sequence_poses := [entry ''A'' 1, entry ''C'' 2, entry ''D'' 3],
        journal := [DeleteRow ''B'', UpdatePosition ''C'' 2, UpdatePosition ''D'' 3]\<rparr>) ''s1''"
proof -
  have h: "\<forall>q. add_position (add_command None (Some 2)) = Some q \<longrightarrow> 1 \<le> q"
    by (simp add: add_command_def)
  from dense_positions_preserved [OF example_schema_ok example_dense,
          where uid = "''u1''" and addCommand = "add_command None (Some 2)"
            and gen = example_generated
            and created = "\<lparr>dto_id = ''N'', dto_poseId = ''p1'', dto_poseName = ''Tree'',
                 dto_sanskritName = Some ''Vrksasana'', dto_imageUrl = None, dto_imageAlt = ''tree'',
                 dto_position = 2, dto_addedAt = ''t1''\<rparr>"
            and ?st1.0 = "example_store\<lparr>
                 sequence_poses := [entry ''A'' 1, entry ''B'' 3, entry ''C'' 4, entry ''D'' 5,
                   (entry ''N'' 2)\<lparr>sp_pose_version_id := ''v2'', sp_added_at := ''t1''\<rparr>],
                 journal := [UpdatePosition ''D'' 5, UpdatePosition ''C'' 4, UpdatePosition ''B'' 3,
                   InsertRow ((entry ''N'' 2)\<lparr>sp_pose_version_id := ''v2'', sp_added_at := ''t1''\<rparr>)]\<rparr>"
            and spid = "''B''" and updateCommand = "move_command 2"
            and moved = "\<lparr>dto_id = ''B'', dto_poseId = ''p1'', dto_poseName = ''Tree'',
                 dto_sanskritName = Some ''Vrksasana'', dto_imageUrl = None, dto_imageAlt = ''tree'',
                 dto_position = 2, dto_addedAt = ''t0''\<rparr>"
            and ?st2.0 = example_store and u = "()"
            and ?st3.0 = "example_store\<lparr>
                 sequence_poses := [entry ''A'' 1, entry ''C'' 2, entry ''D'' 3],
                 journal := [DeleteRow ''B'', UpdatePosition ''C'' 2, UpdatePosition ''D'' 3]\<rparr>"]
    h
  show ?thesis by (simp add: insert_in_middle move_same_position_example remove_collapse)
qed

text \<open>
  The claim as stated fails for Insert: the service accepts the position 0, shifts every
  entry up and creates the entry at 0.
\<close>

theorem insert_at_zero_not_dense:
  "schema_ok example_store \<and> dense example_store ''s1'' \<and>
   addPoseToSequence example_store ''u1'' ''s1'' (add_command None (Some 0)) example_generated =
     (Inr \<lparr>dto_id = ''N'', dto_poseId = ''p1'', dto_poseName = ''Tree'',
           dto_sanskritName = Some ''Vrksasana'', dto_imageUrl = None, dto_imageAlt = ''tree'',
           dto_position = 0, dto_addedAt = ''t1''\<rparr>,
      example_store\<lparr>
        sequence_poses := [entry ''A'' 2, entry ''B'' 3, entry ''C'' 4, entry ''D'' 5,
                           (entry ''N'' 0)\<lparr>sp_pose_version_id := ''v2'', sp_added_at := ''t1''\<rparr>],
        journal := [UpdatePosition ''D'' 5, UpdatePosition ''C'' 4, UpdatePosition ''B'' 3,
                    UpdatePosition ''A'' 2,
                    InsertRow ((entry ''N'' 0)\<lparr>sp_pose_version_id := ''v2'', sp_added_at := ''t1''\<rparr>)]\<rparr>) \<and>
   \<not> dense (example_store\<lparr>
        sequence_poses := [entry ''A'' 2, entry ''B'' 3, entry ''C'' 4, entry ''D'' 5,
                           (entry ''N'' 0)\<lparr>sp_pose_version_id := ''v2'', sp_added_at := ''t1''\<rparr>],
        journal := [UpdatePosition ''D'' 5, UpdatePosition ''C'' 4, UpdatePosition ''B'' 3,
                    UpdatePosition ''A'' 2,
                    InsertRow ((entry ''N'' 0)\<lparr>sp_pose_version_id := ''v2'', sp_added_at := ''t1''\<rparr>)]\<rparr>)
       ''s1''"
proof (intro conjI)
  show "schema_ok example_store" by (rule example_schema_ok)
  show "dense example_store ''s1''" by (rule example_dense)
  show "addPoseToSequence example_store ''u1'' ''s1'' (add_command None (Some 0)) example_generated =
     (Inr \<lparr>dto_id = ''N'', dto_poseId = ''p1'', dto_poseName = ''Tree'',
           dto_sanskritName = Some ''Vrksasana'', dto_imageUrl = None, dto_imageAlt = ''tree'',
           dto_position = 0, dto_addedAt = ''t1''\<rparr>,
      example_store\<lparr>
        sequence_poses := [entry ''A'' 2, entry ''B'' 3, entry ''C'' 4, entry ''D'' 5,
                           (entry ''N'' 0)\<lparr>sp_pose_version_id := ''v2'', sp_added_at := ''t1''\<rparr>],
        journal := [UpdatePosition ''D'' 5, UpdatePosition ''C'' 4, UpdatePosition ''B'' 3,
                    UpdatePosition ''A'' 2,
                    InsertRow ((entry ''N'' 0)\<lparr>sp_pose_version_id := ''v2'', sp_added_at := ''t1''\<rparr>)]\<rparr>)"
    by code_simp
  show "\<not> dense (example_store\<lparr>
        sequence_poses := [entry ''A'' 2, entry ''B'' 3, entry ''C'' 4, entry ''D'' 5,
                           (entry ''N'' 0)\<lparr>sp_pose_version_id := ''v2'', sp_added_at := ''t1''\<rparr>],
        journal := [UpdatePosition ''D'' 5, UpdatePosition ''C'' 4, UpdatePosition ''B'' 3,
                    UpdatePosition ''A'' 2,
                    InsertRow ((entry ''N'' 0)\<lparr>sp_pose_version_id := ''v2'', sp_added_at := ''t1''\<rparr>)]\<rparr>)
       ''s1''"
    by code_simp
qed

section \<open>Move against the unique constraint\<close>

lemma applied_same_rows: "applied st js (sequence_poses st) = st\<lparr>journal := journal st @ js\<rparr>"
  by (simp add: applied_def)

text \<open>
  Claim C3 describes the shift Move attempts. On the schema of the migration the
  attempt never gets past its first statement: the neighbour of the entry (the entry
  one position after it when moving later, one before it when moving earlier) is
  written to the position the moved entry still holds, which the
  unique (sequence_id, position) constraint refuses (or the row is unavailable).
  \<open>updateSequencePose\<close> throws that store error and every position is as before.
\<close>

theorem move_refused:
  assumes ok: "schema_ok st" and dn: "dense st sid"
      and own: "verifySequenceOwnership st sid uid = Inr owner"
      and ex: "e \<in> set (sequence_poses st)" "sp_id e = spid" "in_sequence sid e"
      and cmd: "upd_position cmd = Some new" "upd_duration cmd = None" "upd_instructions cmd = None"
      and new: "new \<noteq> sp_position e" "1 \<le> new" "new \<le> int (length (positions_of st sid))"
  shows "\<exists>x. x \<in> set (sequence_poses st) \<and> in_sequence sid x \<and>
           sp_position x = (if sp_position e < new then sp_position e + 1 else sp_position e - 1) \<and>
           updateSequencePose st uid sid spid cmd =
             (Inl (StoreError (if sp_id x \<in> set (unavailable st) then Unavailable else UniqueViolation)),
              st\<lparr>journal := journal st @ [UpdatePosition (sp_id x) (sp_position e)]\<rparr>)"
proof -
  from ok have pk: "primary_key (sequence_poses st)" by (simp add: schema_ok_def)
  have found: "maybeSingle (filter (\<lambda>r. sp_id r = spid \<and> in_sequence sid r) (sequence_poses st))
                 = Inr (Some e)"
    using existing_entry_found [OF pk ex(1,3)] ex(2) by simp
  from reorder_blocked [OF ok dn ex(1,3) new, of spid]
  obtain x where x: "x \<in> set (sequence_poses st)" "in_sequence sid x"
    "sp_position x = (if sp_position e < new then sp_position e + 1 else sp_position e - 1)"
    "reorder st sid spid (sp_position e) new =
       (Inl (StoreError (if sp_id x \<in> set (unavailable st) then Unavailable else UniqueViolation)),
        applied st [UpdatePosition (sp_id x) (sp_position e)] (sequence_poses st))"
    by blast
  have "updateSequencePose st uid sid spid cmd =
          (Inl (StoreError (if sp_id x \<in> set (unavailable st) then Unavailable else UniqueViolation)),
           st\<lparr>journal := journal st @ [UpdatePosition (sp_id x) (sp_position e)]\<rparr>)"
    using own found cmd new(1) x(4) by (simp add: updateSequencePose_def applied_same_rows)
  with x(1,2,3) show ?thesis by blast
qed

lemma move_later_example:
  "updateSequencePose example_store ''u1'' ''s1'' ''A'' (move_command 3) =
     (Inl (StoreError UniqueViolation), example_store\<lparr>journal := [UpdatePosition ''B'' 1]\<rparr>)"
  by code_simp

lemma move_earlier_example:
  "updateSequencePose example_store ''u1'' ''s1'' ''D'' (move_command 2) =
     (Inl (StoreError UniqueViolation), example_store\<lparr>journal := [UpdatePosition ''C'' 4]\<rparr>)"
  by code_simp

theorem move_refused_witness:
  "\<exists>x. x \<in> set (sequence_poses example_store) \<and> in_sequence ''s1'' x \<and> sp_position x = 2 \<and>
       updateSequencePose example_store ''u1'' ''s1'' ''A'' (move_command 3) =
         (Inl (StoreError UniqueViolation),
          example_store\<lparr>journal := journal example_store @ [UpdatePosition (sp_id x) 1]\<rparr>)"
proof -
  have ex: "entry ''A'' 1 \<in> set (sequence_poses example_store)" "sp_id (entry ''A'' 1) = ''A''"
    "in_sequence ''s1'' (entry ''A'' 1)"
    by (simp_all add: example_defs in_sequence_def)
  have cmd: "upd_position (move_command 3) = Some 3" "upd_duration (move_command 3) = None"
    "upd_instructions (move_command 3) = None" by (simp_all add: move_command_def)
  have new: "3 \<noteq> sp_position (entry ''A'' 1)" "(1::int) \<le> 3"
    "3 \<le> int (length (positions_of example_store ''s1''))"
    by (simp_all add: entry_def example_count)
  have av: "unavailable example_store = []" by (simp add: example_defs)
  from move_refused [OF example_schema_ok example_dense example_owner ex cmd new]
  show ?thesis by (simp add: av) (simp add: entry_def)
qed

text \<open>Asking for the position the entry already has writes nothing and returns the entry.\<close>

lemma move_same_position:
  assumes ok: "schema_ok st"
      and own: "verifySequenceOwnership st sid uid = Inr owner"
      and ex: "e \<in> set (sequence_poses st)" "sp_id e = spid" "in_sequence sid e"
      and cmd: "upd_position cmd = Some (sp_position e)" "upd_duration cmd = None"
               "upd_instructions cmd = None"
  shows "\<exists>dto. updateSequencePose st uid sid spid cmd = (Inr dto, st) \<and>
           dto_id dto = spid \<and> dto_position dto = sp_position e"
proof -
  from ok have pk: "primary_key (sequence_poses st)" by (simp add: schema_ok_def)
  have found: "maybeSingle (filter (\<lambda>r. sp_id r = spid \<and> in_sequence sid r) (sequence_poses st))
                 = Inr (Some e)"
    using existing_entry_found [OF pk ex(1,3)] ex(2) by simp
  from fetch_existing [OF ok ex(1)] ex(2)
  obtain dto where "fetchSequencePoseDto st spid = Inr dto" "dto_id dto = spid"
    "dto_position dto = sp_position e" by auto
  then show ?thesis using own found cmd by (simp add: updateSequencePose_def)
qed

section \<open>What the operations leave alone\<close>

lemma framed_refl [simp]: "framed st st"
  unfolding framed_def by (metis applied_nil)

lemma framed_trans: "framed st st1 \<Longrightarrow> framed st1 st2 \<Longrightarrow> framed st st2"
  unfolding framed_def by (metis applied_applied applied_fields(1))

lemma framed_fields:
  assumes "framed st st'"
  shows "sequences st' = sequences st" "poses st' = poses st"
    "pose_versions st' = pose_versions st" "unavailable st' = unavailable st"
    "map unpositioned (sequence_poses st') = map unpositioned (sequence_poses st)"
  using assms unfolding framed_def by auto

lemma sp_id_unpositioned [simp]: "sp_id (unpositioned r) = sp_id r"
  and sp_pose_id_unpositioned [simp]: "sp_pose_id (unpositioned r) = sp_pose_id r"
  and sp_pose_version_id_unpositioned [simp]: "sp_pose_version_id (unpositioned r) = sp_pose_version_id r"
  and sp_sequence_id_unpositioned [simp]: "sp_sequence_id (unpositioned r) = sp_sequence_id r"
  by (simp_all add: unpositioned_def)

lemma unpositioned_same_columns:
  assumes "map unpositioned rows' = map unpositioned rows"
  shows "map sp_id rows' = map sp_id rows" "map sp_pose_id rows' = map sp_pose_id rows"
proof -
  have "map sp_id (map unpositioned rows') = map sp_id (map unpositioned rows)"
    "map sp_pose_id (map unpositioned rows') = map sp_pose_id (map unpositioned rows)"
    using assms by simp_all
  then show "map sp_id rows' = map sp_id rows" "map sp_pose_id rows' = map sp_pose_id rows"
    by (simp_all add: comp_def)
qed

lemma update_position_framed: "update_position i v st = (res, st') \<Longrightarrow> framed st st'"
  unfolding framed_def by (rule update_position_frame)

lemma shift_each_framed: "shift_each d ps st = (res, st') \<Longrightarrow> framed st st'"
  unfolding framed_def by (rule shift_each_frame)

lemma update_position_error: "update_position i v st = (Inl e, st') \<Longrightarrow> \<exists>x. e = StoreError x"
  by (auto simp: update_position_eq split: if_splits)

lemma shift_each_error: "shift_each d ps st = (Inl e, st') \<Longrightarrow> \<exists>x. e = StoreError x"
proof (induction ps arbitrary: st)
  case Nil
  then show ?case by simp
next
  case (Cons x ps)
  show ?case
  proof (cases "update_position (fst x) (snd x + d) st")
    case (Pair res1 st1)
    show ?thesis
    proof (cases res1)
      case (Inl e1)
      with Pair Cons.prems have "update_position (fst x) (snd x + d) st = (Inl e, st')" by simp
      then show ?thesis by (rule update_position_error)
    next
      case (Inr u)
      with Pair Cons.prems have "shift_each d ps st1 = (Inl e, st')" by simp
      then show ?thesis by (rule Cons.IH)
    qed
  qed
qed

lemma insert_row_error: "insert_row r st = (Inl e, st') \<Longrightarrow> \<exists>x. e = StoreError x"
  by (auto simp: insert_row_eq split: if_splits)

lemma delete_row_error: "delete_row i st = (Inl e, st') \<Longrightarrow> \<exists>x. e = StoreError x"
  by (auto simp: delete_row_eq split: if_splits)

text \<open>The three ways the reordering block of Move can end.\<close>

lemma reorder_cases:
  assumes "reorder st sid spid old new = (res, st')"
  obtains (invalid) "new < 1 \<or> getNextPosition st sid \<le> new" "res = Inl INVALID_POSITION" "st' = st"
        | (store) x where "\<not> (new < 1 \<or> getNextPosition st sid \<le> new)" "res = Inl (StoreError x)"
            "framed st st'"
        | (written) "\<not> (new < 1 \<or> getNextPosition st sid \<le> new)" "res = Inr ()" "framed st st'"
proof (cases "new < 1 \<or> getNextPosition st sid \<le> new")
  case True
  with assms have "res = Inl INVALID_POSITION" "st' = st" by (auto simp: reorder_def)
  with True show ?thesis by (rule invalid)
next
  case False
  let ?later = "if old < new
                then shift_each (- 1) (select_id_position st sid (\<lambda>p. old < p \<and> p \<le> new) True) st
                else (Inr (), st)"
  obtain r1 st1 where l: "?later = (r1, st1)" by (cases ?later)
  then have f1: "framed st st1" by (auto split: if_splits dest: shift_each_framed)
  show ?thesis
  proof (cases r1)
    case (Inl e1)
    with l have "\<exists>x. e1 = StoreError x" by (auto split: if_splits dest: shift_each_error)
    moreover from assms False l Inl have "res = Inl e1" "st' = st1"
      by (simp_all add: reorder_def Let_def)
    ultimately show ?thesis using False f1 store by blast
  next
    case (Inr u1)
    let ?earlier = "if new < old
                    then shift_each 1 (select_id_position st1 sid (\<lambda>p. new \<le> p \<and> p < old) False) st1
                    else (Inr (), st1)"
    obtain r2 st2 where e: "?earlier = (r2, st2)" by (cases ?earlier)
    then have f2: "framed st1 st2" by (auto split: if_splits dest: shift_each_framed)
    show ?thesis
    proof (cases r2)
      case (Inl e2)
      with e have "\<exists>x. e2 = StoreError x" by (auto split: if_splits dest: shift_each_error)
      moreover from assms False l Inr e Inl have "res = Inl e2" "st' = st2"
        by (simp_all add: reorder_def Let_def)
      ultimately show ?thesis using False framed_trans [OF f1 f2] store by blast
    next
      case (Inr u2)
      with assms False l \<open>r1 = Inr u1\<close> e have u: "update_position spid new st2 = (res, st')"
        by (simp add: reorder_def Let_def)
      then have f3: "framed st st'" using framed_trans [OF f1 f2] framed_trans update_position_framed
        by blast
      show ?thesis
      proof (cases res)
        case (Inl e3)
        with u update_position_error have "\<exists>x. e3 = StoreError x" by blast
        with Inl False f3 store show ?thesis by blast
      next
        case (Inr u3)
        with False f3 written show ?thesis by simp
      qed
    qed
  qed
qed

section \<open>The ways each operation can end\<close>

lemma shiftPositionsUp_framed: "shiftPositionsUp st sid p = (res, st') \<Longrightarrow> framed st st'"
  unfolding shiftPositionsUp_def by (rule shift_each_framed)

lemma shiftPositionsDown_framed: "shiftPositionsDown st sid p = (res, st') \<Longrightarrow> framed st st'"
  unfolding shiftPositionsDown_def by (rule shift_each_framed)

lemma addPoseToSequence_cases:
  fixes cmd :: AddPoseToSequenceCommand and st :: store and sid :: uuid
  defines "p \<equiv> (case add_position cmd of Some q \<Rightarrow> q | None \<Rightarrow> getNextPosition st sid)"
  assumes run: "addPoseToSequence st uid sid cmd gen = (res, st')"
  obtains
    (not_owner) e where "verifySequenceOwnership st sid uid = Inl e" "res = Inl e" "st' = st"
  | (no_version) e where "resolvePoseVersion st (add_poseId cmd) (add_poseVersion cmd) = Inl e"
      "res = Inl e" "st' = st"
  | (invalid) v where "resolvePoseVersion st (add_poseId cmd) (add_poseVersion cmd) = Inr v"
      "getNextPosition st sid < p" "res = Inl INVALID_POSITION" "st' = st"
  | (shift_failed) v x where "resolvePoseVersion st (add_poseId cmd) (add_poseVersion cmd) = Inr v"
      "p \<le> getNextPosition st sid" "res = Inl (StoreError x)" "framed st st'"
  | (insert_failed) v x st1 where "resolvePoseVersion st (add_poseId cmd) (add_poseVersion cmd) = Inr v"
      "p \<le> getNextPosition st sid" "res = Inl (StoreError x)" "framed st st1"
      "st' = applied st1 [InsertRow \<lparr>sp_id = gen_id gen, sp_sequence_id = sid,
                sp_pose_id = add_poseId cmd, sp_pose_version_id = v, sp_position = p,
                sp_added_at = gen_added_at gen\<rparr>] (sequence_poses st1)"
  | (inserted) v st1 where "resolvePoseVersion st (add_poseId cmd) (add_poseVersion cmd) = Inr v"
      "p \<le> getNextPosition st sid" "framed st st1"
      "gen_id gen \<notin> sp_id ` set (sequence_poses st1)"
      "st' = applied st1 [InsertRow \<lparr>sp_id = gen_id gen, sp_sequence_id = sid,
                sp_pose_id = add_poseId cmd, sp_pose_version_id = v, sp_position = p,
                sp_added_at = gen_added_at gen\<rparr>]
               (sequence_poses st1 @ [\<lparr>sp_id = gen_id gen, sp_sequence_id = sid,
                sp_pose_id = add_poseId cmd, sp_pose_version_id = v, sp_position = p,
                sp_added_at = gen_added_at gen\<rparr>])"
      "res = fetchSequencePoseDto st' (gen_id gen)"
proof (cases "verifySequenceOwnership st sid uid")
  case (Inl e)
  with run have "res = Inl e" "st' = st" by (auto simp: addPoseToSequence_def)
  with Inl show ?thesis by (rule not_owner)
next
  case own: (Inr owner)
  show ?thesis
  proof (cases "resolvePoseVersion st (add_poseId cmd) (add_poseVersion cmd)")
    case (Inl e)
    with run own have "res = Inl e" "st' = st" by (auto simp: addPoseToSequence_def)
    with Inl show ?thesis by (rule no_version)
  next
    case ver: (Inr v)
    define new where "new = \<lparr>sp_id = gen_id gen, sp_sequence_id = sid,
                sp_pose_id = add_poseId cmd, sp_pose_version_id = v, sp_position = p,
                sp_added_at = gen_added_at gen\<rparr>"
    show ?thesis
    proof (cases "getNextPosition st sid < p")
      case True
      with run own ver have "res = Inl INVALID_POSITION" "st' = st"
        by (auto simp: addPoseToSequence_def Let_def p_def)
      with ver True show ?thesis by (rule invalid)
    next
      case False
      then have le: "p \<le> getNextPosition st sid" by simp
      let ?phase = "case add_position cmd of
                      Some q \<Rightarrow> if q < getNextPosition st sid then shiftPositionsUp st sid q
                                else (Inr (), st)
                    | None \<Rightarrow> (Inr (), st)"
      obtain r1 st1 where ph: "?phase = (r1, st1)" by (cases ?phase)
      then have f1: "framed st st1"
        by (auto split: option.splits if_splits dest: shiftPositionsUp_framed)
      have rest: "(case ?phase of
                 (Inl e, st1) \<Rightarrow> (Inl e, st1)
               | (Inr _, st1) \<Rightarrow>
                  (case insert_row new st1 of
                     (Inl e, st2) \<Rightarrow> (Inl e, st2)
                   | (Inr _, st2) \<Rightarrow>
                      (case fetchSequencePoseDto st2 (gen_id gen) of
                         Inl e \<Rightarrow> (Inl e, st2)
                       | Inr dto \<Rightarrow> (Inr dto, st2)))) = (res, st')"
        using run own ver False unfolding new_def p_def by (simp add: addPoseToSequence_def Let_def)
      show ?thesis
      proof (cases r1)
        case (Inl e1)
        with ph have "\<exists>x. e1 = StoreError x"
          by (auto simp: shiftPositionsUp_def split: option.splits if_splits dest: shift_each_error)
        moreover from rest ph Inl have "res = Inl e1" "st' = st1" by simp_all
        ultimately show ?thesis using ver le f1 shift_failed by blast
      next
        case (Inr u1)
        obtain r2 st2 where ins: "insert_row new st1 = (r2, st2)" by (cases "insert_row new st1")
        show ?thesis
        proof (cases r2)
          case (Inl e2)
          with ins insert_row_error have "\<exists>x. e2 = StoreError x" by blast
          moreover from ins Inl have "st2 = applied st1 [InsertRow new] (sequence_poses st1)"
            by (auto simp: insert_row_eq split: if_splits)
          moreover from rest ph \<open>r1 = Inr u1\<close> ins Inl have "res = Inl e2" "st' = st2" by simp_all
          ultimately show ?thesis using ver le f1 insert_failed unfolding new_def by blast
        next
          case (Inr u2)
          with ins have "st2 = applied st1 [InsertRow new] (sequence_poses st1 @ [new])"
            and "gen_id gen \<notin> sp_id ` set (sequence_poses st1)"
            by (auto simp: insert_row_eq new_def split: if_splits)
          moreover from rest ph \<open>r1 = Inr u1\<close> ins Inr
          have "st' = st2" "res = fetchSequencePoseDto st2 (gen_id gen)"
            by (auto split: sum.splits)
          ultimately show ?thesis using ver le f1 inserted unfolding new_def by blast
        qed
      qed
    qed
  qed
qed

lemma updateSequencePose_cases:
  assumes run: "updateSequencePose st uid sid spid cmd = (res, st')"
  obtains
    (not_owner) e where "verifySequenceOwnership st sid uid = Inl e" "res = Inl e" "st' = st"
  | (lookup_failed) e where
      "maybeSingle (filter (\<lambda>r. sp_id r = spid \<and> in_sequence sid r) (sequence_poses st)) = Inl e"
      "res = Inl e" "st' = st"
  | (no_entry)
      "maybeSingle (filter (\<lambda>r. sp_id r = spid \<and> in_sequence sid r) (sequence_poses st)) = Inr None"
      "res = Inl SEQUENCE_POSE_NOT_FOUND" "st' = st"
  | (unsupported) "upd_duration cmd \<noteq> None \<or> upd_instructions cmd \<noteq> None"
      "res = Inl DURATION_AND_INSTRUCTIONS_NOT_SUPPORTED" "st' = st"
  | (unmoved) e where
      "maybeSingle (filter (\<lambda>r. sp_id r = spid \<and> in_sequence sid r) (sequence_poses st)) = Inr (Some e)"
      "upd_duration cmd = None" "upd_instructions cmd = None"
      "upd_position cmd = None \<or> upd_position cmd = Some (sp_position e)"
      "res = fetchSequencePoseDto st spid" "st' = st"
  | (invalid) e new where
      "maybeSingle (filter (\<lambda>r. sp_id r = spid \<and> in_sequence sid r) (sequence_poses st)) = Inr (Some e)"
      "upd_duration cmd = None" "upd_instructions cmd = None"
      "upd_position cmd = Some new" "new \<noteq> sp_position e"
      "new < 1 \<or> getNextPosition st sid \<le> new" "res = Inl INVALID_POSITION" "st' = st"
  | (store) e new x where
      "maybeSingle (filter (\<lambda>r. sp_id r = spid \<and> in_sequence sid r) (sequence_poses st)) = Inr (Some e)"
      "upd_duration cmd = None" "upd_instructions cmd = None"
      "upd_position cmd = Some new" "new \<noteq> sp_position e"
      "\<not> (new < 1 \<or> getNextPosition st sid \<le> new)" "res = Inl (StoreError x)" "framed st st'"
  | (moved) e new where
      "maybeSingle (filter (\<lambda>r. sp_id r = spid \<and> in_sequence sid r) (sequence_poses st)) = Inr (Some e)"
      "upd_duration cmd = None" "upd_instructions cmd = None"
      "upd_position cmd = Some new" "new \<noteq> sp_position e"
      "\<not> (new < 1 \<or> getNextPosition st sid \<le> new)" "framed st st'"
      "res = fetchSequencePoseDto st' spid"
proof (cases "verifySequenceOwnership st sid uid")
  case (Inl e)
  with run have "res = Inl e" "st' = st" by (auto simp: updateSequencePose_def)
  with Inl show ?thesis by (rule not_owner)
next
  case own: (Inr owner)
  let ?found = "maybeSingle (filter (\<lambda>r. sp_id r = spid \<and> in_sequence sid r) (sequence_poses st))"
  show ?thesis
  proof (cases ?found)
    case (Inl e)
    with run own have "res = Inl e" "st' = st" by (auto simp: updateSequencePose_def)
    with Inl show ?thesis by (rule lookup_failed)
  next
    case (Inr found)
    show ?thesis
    proof (cases found)
      case None
      with run own Inr have "res = Inl SEQUENCE_POSE_NOT_FOUND" "st' = st"
        by (auto simp: updateSequencePose_def)
      with Inr None show ?thesis using no_entry by blast
    next
      case (Some e)
      with Inr have found: "?found = Inr (Some e)" by simp
      show ?thesis
      proof (cases "upd_duration cmd \<noteq> None \<or> upd_instructions cmd \<noteq> None")
        case True
        with run own found have "res = Inl DURATION_AND_INSTRUCTIONS_NOT_SUPPORTED" "st' = st"
          by (auto simp: updateSequencePose_def)
        with True show ?thesis by (rule unsupported)
      next
        case False
        then have sup: "upd_duration cmd = None" "upd_instructions cmd = None" by simp_all
        show ?thesis
        proof (cases "upd_position cmd = None \<or> upd_position cmd = Some (sp_position e)")
          case True
          with run own found sup have "res = fetchSequencePoseDto st spid" "st' = st"
            by (auto simp: updateSequencePose_def split: sum.splits)
          with found sup True show ?thesis by (rule unmoved)
        next
          case False
          then obtain new where new: "upd_position cmd = Some new" "new \<noteq> sp_position e"
            by (cases "upd_position cmd") auto
          obtain r1 st1 where ro: "reorder st sid spid (sp_position e) new = (r1, st1)"
            by (cases "reorder st sid spid (sp_position e) new")
          from run own found sup new ro
          have rest: "(case r1 of Inl e \<Rightarrow> (Inl e, st1)
                      | Inr _ \<Rightarrow> (case fetchSequencePoseDto st1 spid of
                                     Inl e \<Rightarrow> (Inl e, st1) | Inr dto \<Rightarrow> (Inr dto, st1)))
                       = (res, st')"
            by (simp add: updateSequencePose_def split: sum.splits)
          from ro show ?thesis
          proof (cases rule: reorder_cases)
            case invalid
            with rest have "res = Inl INVALID_POSITION" "st' = st" by simp_all
            with found sup new invalid(1) show ?thesis using that(6) by blast
          next
            case (store x)
            with rest have "res = Inl (StoreError x)" "st' = st1" by simp_all
            with found sup new store(1,3) show ?thesis using that(7) by blast
          next
            case written
            with rest have "st' = st1" "res = fetchSequencePoseDto st1 spid"
              by (auto split: sum.splits)
            with found sup new written(1,3) show ?thesis using that(8) by blast
          qed
        qed
      qed
    qed
  qed
qed

lemma removeSequencePose_cases:
  assumes run: "removeSequencePose st uid sid spid = (res, st')"
  obtains
    (not_owner) e where "verifySequenceOwnership st sid uid = Inl e" "res = Inl e" "st' = st"
  | (lookup_failed) e where
      "maybeSingle (filter (\<lambda>r. sp_id r = spid \<and> in_sequence sid r) (sequence_poses st)) = Inl e"
      "res = Inl e" "st' = st"
  | (no_entry)
      "maybeSingle (filter (\<lambda>r. sp_id r = spid \<and> in_sequence sid r) (sequence_poses st)) = Inr None"
      "res = Inl SEQUENCE_POSE_NOT_FOUND" "st' = st"
  | (delete_failed) x where "res = Inl (StoreError x)"
      "st' = applied st [DeleteRow spid] (sequence_poses st)"
  | (deleted) e where
      "maybeSingle (filter (\<lambda>r. sp_id r = spid \<and> in_sequence sid r) (sequence_poses st)) = Inr (Some e)"
      "res = Inr () \<or> (\<exists>x. res = Inl (StoreError x))"
      "framed (applied st [DeleteRow spid] (filter (\<lambda>r. sp_id r \<noteq> spid) (sequence_poses st))) st'"
proof (cases "verifySequenceOwnership st sid uid")
  case (Inl e)
  with run have "res = Inl e" "st' = st" by (auto simp: removeSequencePose_def)
  with Inl show ?thesis by (rule not_owner)
next
  case own: (Inr owner)
  let ?found = "maybeSingle (filter (\<lambda>r. sp_id r = spid \<and> in_sequence sid r) (sequence_poses st))"
  show ?thesis
  proof (cases ?found)
    case (Inl e)
    with run own have "res = Inl e" "st' = st" by (auto simp: removeSequencePose_def)
    with Inl show ?thesis by (rule lookup_failed)
  next
    case (Inr found)
    show ?thesis
    proof (cases found)
      case None
      with run own Inr have "res = Inl SEQUENCE_POSE_NOT_FOUND" "st' = st"
        by (auto simp: removeSequencePose_def)
      with Inr None show ?thesis using no_entry by blast
    next
      case (Some e)
      with Inr have found: "?found = Inr (Some e)" by simp
      show ?thesis
      proof (cases "spid \<in> set (unavailable st)")
        case True
        with run own found have "res = Inl (StoreError Unavailable)"
          "st' = applied st [DeleteRow spid] (sequence_poses st)"
          by (auto simp: removeSequencePose_def delete_row_eq)
        then show ?thesis by (rule delete_failed)
      next
        case False
        let ?st1 = "applied st [DeleteRow spid] (filter (\<lambda>r. sp_id r \<noteq> spid) (sequence_poses st))"
        from run own found False
        have down: "shiftPositionsDown ?st1 sid (sp_position e) = (res, st')"
          by (simp add: removeSequencePose_def delete_row_eq)
        then have "framed ?st1 st'" by (rule shiftPositionsDown_framed)
        moreover have "res = Inr () \<or> (\<exists>x. res = Inl (StoreError x))"
        proof (cases res)
          case (Inl e1)
          with down show ?thesis unfolding shiftPositionsDown_def by (auto dest: shift_each_error)
        next
          case (Inr u)
          then show ?thesis by simp
        qed
        ultimately show ?thesis using found deleted by blast
      qed
    qed
  qed
qed

section \<open>Failures before the first write\<close>

lemma fetch_error:
  "fetchSequencePoseDto st i = Inl e \<Longrightarrow> e = SEQUENCE_POSE_NOT_FOUND \<or> e = StoreError NotSingleRow"
  by (cases "filter (\<lambda>r. sp_id r = i) (sequence_poses st)" rule: single_row.cases)
     (auto simp: fetchSequencePoseDto_def split: option.splits)

lemma fetch_framed:
  assumes ok: "schema_ok st" and fr: "framed st st1" and e: "e \<in> set (sequence_poses st)"
  shows "\<exists>dto. fetchSequencePoseDto st1 (sp_id e) = Inr dto"
proof -
  note cols = unpositioned_same_columns [OF framed_fields(5) [OF fr]]
  from ok have "primary_key (sequence_poses st)" by (simp add: schema_ok_def)
  then have pk1: "primary_key (sequence_poses st1)" by (simp add: primary_key_def cols)
  from e have "sp_id e \<in> set (map sp_id (sequence_poses st1))" by (simp add: cols)
  then obtain e1 where e1: "e1 \<in> set (sequence_poses st1)" "sp_id e1 = sp_id e" by auto
  then have "sp_pose_id e1 \<in> set (map sp_pose_id (sequence_poses st1))" by simp
  then have "sp_pose_id e1 \<in> pose_id ` set (poses st1)"
    using schema_ok_pose_ids [OF ok] by (auto simp: cols framed_fields(2) [OF fr])
  then obtain pose where "find (\<lambda>p. pose_id p = sp_pose_id e1) (poses st1) = Some pose"
    by (rule find_pose)
  with filter_id_present [OF pk1 e1(1)] e1(2) show ?thesis
    by (simp add: fetchSequencePoseDto_def)
qed

lemma insert_fail_fast:
  assumes ok: "schema_ok st"
      and run: "addPoseToSequence st uid sid cmd gen = (Inl err, st')"
      and err: "\<forall>x. err \<noteq> StoreError x"
  shows "st' = st"
  using run
proof (cases rule: addPoseToSequence_cases)
  case (inserted v st1)
  let ?new = "\<lparr>sp_id = gen_id gen, sp_sequence_id = sid, sp_pose_id = add_poseId cmd,
               sp_pose_version_id = v,
               sp_position = (case add_position cmd of None \<Rightarrow> getNextPosition st sid | Some q \<Rightarrow> q),
               sp_added_at = gen_added_at gen\<rparr>"
  have "sp_pose_id ?new \<in> pose_id ` set (poses st1)"
    using resolve_pose_exists [OF ok inserted(1)] framed_fields(2) [OF inserted(3)] by simp
  from fetch_created [OF _ this, of "sequence_poses st1" "[InsertRow ?new]"] inserted(4,5,6)
  show ?thesis by auto
qed (use err in auto)

lemma move_fail_fast:
  assumes ok: "schema_ok st"
      and run: "updateSequencePose st uid sid spid cmd = (Inl err, st')"
      and err: "\<forall>x. err \<noteq> StoreError x"
  shows "st' = st"
  using run
proof (cases rule: updateSequencePose_cases)
  case (moved e new)
  note ex = existing_entry [OF moved(1)]
  from fetch_framed [OF ok moved(7) ex(1)] ex(2) moved(8) show ?thesis by auto
qed (use err in auto)

lemma remove_fail_fast:
  assumes run: "removeSequencePose st uid sid spid = (Inl err, st')"
      and err: "\<forall>x. err \<noteq> StoreError x"
  shows "st' = st"
  using run by (cases rule: removeSequencePose_cases) (use err in auto)

text \<open>
  Fail-fast. In a schema-valid store, whenever one of the three operations fails with
  INVALID_POSITION, SEQUENCE_NOT_FOUND, SEQUENCE_POSE_NOT_FOUND, POSE_NOT_FOUND,
  POSE_VERSION_NOT_FOUND (or the not-supported signal), the store it leaves is the store
  it was given, journal included: the failure came before any write statement was sent.
\<close>

theorem fail_fast:
  assumes "schema_ok st"
      and "err \<in> {INVALID_POSITION, SEQUENCE_NOT_FOUND, SEQUENCE_POSE_NOT_FOUND, POSE_NOT_FOUND,
                   POSE_VERSION_NOT_FOUND, DURATION_AND_INSTRUCTIONS_NOT_SUPPORTED}"
  shows "(addPoseToSequence st uid sid addCommand gen = (Inl err, st1) \<longrightarrow> st1 = st) \<and>
         (updateSequencePose st uid sid spid updateCommand = (Inl err, st2) \<longrightarrow> st2 = st) \<and>
         (removeSequencePose st uid sid spid = (Inl err, st3) \<longrightarrow> st3 = st)"
proof -
  from assms(2) have ne: "\<forall>x. err \<noteq> StoreError x" by auto
  show ?thesis
  proof (intro conjI impI)
    assume "addPoseToSequence st uid sid addCommand gen = (Inl err, st1)"
    then show "st1 = st" using ne by (rule insert_fail_fast [OF assms(1)])
  next
    assume "updateSequencePose st uid sid spid updateCommand = (Inl err, st2)"
    then show "st2 = st" using ne by (rule move_fail_fast [OF assms(1)])
  next
    assume "removeSequencePose st uid sid spid = (Inl err, st3)"
    then show "st3 = st" using ne by (rule remove_fail_fast)
  qed
qed

lemma insert_past_end_example:
  "addPoseToSequence example_store ''u1'' ''s1'' (add_command None (Some 6)) example_generated
     = (Inl INVALID_POSITION, example_store)"
  by code_simp

lemma move_past_end_example:
  "updateSequencePose example_store ''u1'' ''s1'' ''A'' (move_command 5)
     = (Inl INVALID_POSITION, example_store)"
  by code_simp

lemma move_to_zero_example:
  "updateSequencePose example_store ''u1'' ''s1'' ''A'' (move_command 0)
     = (Inl INVALID_POSITION, example_store)"
  by code_simp

theorem fail_fast_witness:
  "INVALID_POSITION \<in> {INVALID_POSITION, SEQUENCE_NOT_FOUND, SEQUENCE_POSE_NOT_FOUND, POSE_NOT_FOUND,
                        POSE_VERSION_NOT_FOUND, DURATION_AND_INSTRUCTIONS_NOT_SUPPORTED} \<and>
   addPoseToSequence example_store ''u1'' ''s1'' (add_command None (Some 6)) example_generated
     = (Inl INVALID_POSITION, example_store) \<and>
   updateSequencePose example_store ''u1'' ''s1'' ''A'' (move_command 5)
     = (Inl INVALID_POSITION, example_store)"
  using fail_fast [OF example_schema_ok, of INVALID_POSITION "''u1''" "''s1''"
      "add_command None (Some 6)" example_generated example_store "''A''" "move_command 5"
      example_store example_store]
  by (simp add: insert_past_end_example move_past_end_example)

text \<open>
  Claim C7 wants each operation to be one atomic unit: when a write fails partway through
  a shift, the stored state is the state before the operation. The service sends every
  statement on its own and opens no transaction, so the statements applied before the
  failing one stay applied. On the dense sequence A, B, C, D: with the row C
  unavailable, Insert at position 2 has moved D to 5 when the update of C fails; the
  error is returned, D stays at 5 and position 4 is empty. With the row D unavailable,
  Remove of B has deleted B and moved C to 2 when the update of D fails; the error is
  returned, B is gone and position 3 is empty.
\<close>

theorem shift_failure_persists:
  "dense (example_store\<lparr>unavailable := [''C'']\<rparr>) ''s1'' \<and>
   addPoseToSequence (example_store\<lparr>unavailable := [''C'']\<rparr>) ''u1'' ''s1''
       (add_command None (Some 2)) example_generated =
     (Inl (StoreError Unavailable),
      example_store\<lparr>unavailable := [''C''],
        sequence_poses := [entry ''A'' 1, entry ''B'' 2, entry ''C'' 3, entry ''D'' 5],
        journal := [UpdatePosition ''D'' 5, UpdatePosition ''C'' 4]\<rparr>) \<and>
   sequence_poses (example_store\<lparr>unavailable := [''C'']\<rparr>)
     = [entry ''A'' 1, entry ''B'' 2, entry ''C'' 3, entry ''D'' 4] \<and>
   entry ''D'' 5 \<noteq> entry ''D'' 4 \<and>
   \<not> dense (snd (addPoseToSequence (example_store\<lparr>unavailable := [''C'']\<rparr>) ''u1'' ''s1''
       (add_command None (Some 2)) example_generated)) ''s1'' \<and>
   removeSequencePose (example_store\<lparr>unavailable := [''D'']\<rparr>) ''u1'' ''s1'' ''B'' =
     (Inl (StoreError Unavailable),
      example_store\<lparr>unavailable := [''D''],
        sequence_poses := [entry ''A'' 1, entry ''C'' 2, entry ''D'' 4],
        journal := [DeleteRow ''B'', UpdatePosition ''C'' 2, UpdatePosition ''D'' 3]\<rparr>) \<and>
   \<not> dense (snd (removeSequencePose (example_store\<lparr>unavailable := [''D'']\<rparr>) ''u1'' ''s1'' ''B''))
       ''s1''"
  by code_simp

section \<open>Out-of-range positions\<close>

lemma insert_invalid_iff:
  assumes own: "verifySequenceOwnership st sid uid = Inr owner"
      and ver: "resolvePoseVersion st (add_poseId cmd) (add_poseVersion cmd) = Inr v"
      and pos: "add_position cmd = Some p"
  shows "(fst (addPoseToSequence st uid sid cmd gen) = Inl INVALID_POSITION
            \<longleftrightarrow> getNextPosition st sid < p) \<and>
         (getNextPosition st sid < p \<longrightarrow> snd (addPoseToSequence st uid sid cmd gen) = st)"
proof -
  obtain res st' where run: "addPoseToSequence st uid sid cmd gen = (res, st')"
    by (cases "addPoseToSequence st uid sid cmd gen")
  from run have "(res = Inl INVALID_POSITION \<longleftrightarrow> getNextPosition st sid < p) \<and>
                 (getNextPosition st sid < p \<longrightarrow> st' = st)"
  proof (cases rule: addPoseToSequence_cases)
    case (inserted v st1)
    with fetch_error [of st' "gen_id gen"] pos show ?thesis by (cases res) auto
  qed (use own ver pos in auto)
  with run show ?thesis by simp
qed

lemma move_invalid_iff:
  assumes ok: "schema_ok st"
      and own: "verifySequenceOwnership st sid uid = Inr owner"
      and ex: "e \<in> set (sequence_poses st)" "sp_id e = spid" "in_sequence sid e"
      and cmd: "upd_position cmd = Some new" "upd_duration cmd = None" "upd_instructions cmd = None"
  shows "(fst (updateSequencePose st uid sid spid cmd) = Inl INVALID_POSITION
            \<longleftrightarrow> new \<noteq> sp_position e \<and> (new < 1 \<or> getNextPosition st sid \<le> new)) \<and>
         (new \<noteq> sp_position e \<and> (new < 1 \<or> getNextPosition st sid \<le> new)
            \<longrightarrow> snd (updateSequencePose st uid sid spid cmd) = st)"
proof -
  from ok have pk: "primary_key (sequence_poses st)" by (simp add: schema_ok_def)
  have found: "maybeSingle (filter (\<lambda>r. sp_id r = spid \<and> in_sequence sid r) (sequence_poses st))
                 = Inr (Some e)"
    using existing_entry_found [OF pk ex(1,3)] ex(2) by simp
  obtain res st' where run: "updateSequencePose st uid sid spid cmd = (res, st')"
    by (cases "updateSequencePose st uid sid spid cmd")
  from run have "(res = Inl INVALID_POSITION
                    \<longleftrightarrow> new \<noteq> sp_position e \<and> (new < 1 \<or> getNextPosition st sid \<le> new)) \<and>
                 (new \<noteq> sp_position e \<and> (new < 1 \<or> getNextPosition st sid \<le> new) \<longrightarrow> st' = st)"
  proof (cases rule: updateSequencePose_cases)
    case (unmoved e')
    with fetch_error [of st spid] found cmd show ?thesis by (cases res) auto
  next
    case (moved e' new')
    with fetch_error [of st' spid] found cmd show ?thesis by (cases res) auto
  qed (use own found cmd in auto)
  with run show ?thesis by simp
qed

text \<open>
  Claim C5, as amended. On a dense sequence of N entries in a schema-valid store, with
  ownership verified: Insert with a resolved pose version and a supplied position p
  fails with INVALID_POSITION exactly when p > N+1 (a position below 1 is not rejected
  by the service); Move of an existing entry with no duration or instructions field
  fails with INVALID_POSITION exactly when the new position differs from the current one
  and lies outside 1..N. In each of these failures the store is left as it was.
\<close>

theorem invalid_position_iff:
  assumes ok: "schema_ok st" and dn: "dense st sid"
      and own: "verifySequenceOwnership st sid uid = Inr owner"
  shows "(resolvePoseVersion st (add_poseId addCommand) (add_poseVersion addCommand) = Inr v \<and>
          add_position addCommand = Some p \<longrightarrow>
            (fst (addPoseToSequence st uid sid addCommand gen) = Inl INVALID_POSITION
               \<longleftrightarrow> int (length (positions_of st sid)) + 1 < p) \<and>
            (int (length (positions_of st sid)) + 1 < p
               \<longrightarrow> snd (addPoseToSequence st uid sid addCommand gen) = st)) \<and>
         (e \<in> set (sequence_poses st) \<and> sp_id e = spid \<and> in_sequence sid e \<and>
          upd_position updateCommand = Some new \<and> upd_duration updateCommand = None \<and>
          upd_instructions updateCommand = None \<longrightarrow>
            (fst (updateSequencePose st uid sid spid updateCommand) = Inl INVALID_POSITION
               \<longleftrightarrow> new \<noteq> sp_position e \<and> (new < 1 \<or> int (length (positions_of st sid)) < new)) \<and>
            (new \<noteq> sp_position e \<and> (new < 1 \<or> int (length (positions_of st sid)) < new)
               \<longrightarrow> snd (updateSequencePose st uid sid spid updateCommand) = st))"
proof -
  note gnp = getNextPosition_dense [OF dn]
  have ins: "(fst (addPoseToSequence st uid sid addCommand gen) = Inl INVALID_POSITION
               \<longleftrightarrow> int (length (positions_of st sid)) + 1 < p) \<and>
            (int (length (positions_of st sid)) + 1 < p
               \<longrightarrow> snd (addPoseToSequence st uid sid addCommand gen) = st)"
    if "resolvePoseVersion st (add_poseId addCommand) (add_poseVersion addCommand) = Inr v"
      "add_position addCommand = Some p"
    using insert_invalid_iff [OF own that, of gen] unfolding gnp .
  have mov: "(fst (updateSequencePose st uid sid spid updateCommand) = Inl INVALID_POSITION
               \<longleftrightarrow> new \<noteq> sp_position e \<and> (new < 1 \<or> int (length (positions_of st sid)) < new)) \<and>
            (new \<noteq> sp_position e \<and> (new < 1 \<or> int (length (positions_of st sid)) < new)
               \<longrightarrow> snd (updateSequencePose st uid sid spid updateCommand) = st)"
    if "e \<in> set (sequence_poses st)" "sp_id e = spid" "in_sequence sid e"
      "upd_position updateCommand = Some new" "upd_duration updateCommand = None"
      "upd_instructions updateCommand = None"
    using move_invalid_iff [OF ok own that] unfolding gnp add1_zle_eq .
  show ?thesis
  proof (rule conjI; rule impI)
    assume "resolvePoseVersion st (add_poseId addCommand) (add_poseVersion addCommand) = Inr v \<and>
            add_position addCommand = Some p"
    then show "(fst (addPoseToSequence st uid sid addCommand gen) = Inl INVALID_POSITION
               \<longleftrightarrow> int (length (positions_of st sid)) + 1 < p) \<and>
            (int (length (positions_of st sid)) + 1 < p
               \<longrightarrow> snd (addPoseToSequence st uid sid addCommand gen) = st)"
      using ins by simp
  next
    assume "e \<in> set (sequence_poses st) \<and> sp_id e = spid \<and> in_sequence sid e \<and>
          upd_position updateCommand = Some new \<and> upd_duration updateCommand = None \<and>
          upd_instructions updateCommand = None"
    then show "(fst (updateSequencePose st uid sid spid updateCommand) = Inl INVALID_POSITION
               \<longleftrightarrow> new \<noteq> sp_position e \<and> (new < 1 \<or> int (length (positions_of st sid)) < new)) \<and>
            (new \<noteq> sp_position e \<and> (new < 1 \<or> int (length (positions_of st sid)) < new)
               \<longrightarrow> snd (updateSequencePose st uid sid spid updateCommand) = st)"
      using mov by simp
  qed
qed

theorem insert_at_zero_accepted:
  "dense example_store ''s1'' \<and> length (positions_of example_store ''s1'') = 4 \<and>
   \<not> (1 \<le> (0::int) \<and> (0::int) \<le> 4 + 1) \<and>
   verifySequenceOwnership example_store ''s1'' ''u1'' = Inr \<lparr>seq_id = ''s1'', seq_user_id = ''u1''\<rparr> \<and>
   fst (addPoseToSequence example_store ''u1'' ''s1'' (add_command None (Some 0)) example_generated)
     \<noteq> Inl INVALID_POSITION"
  by (simp add: example_dense example_count example_owner) code_simp

theorem invalid_position_iff_witness:
  "(fst (addPoseToSequence example_store ''u1'' ''s1'' (add_command None (Some 6)) example_generated)
      = Inl INVALID_POSITION \<longleftrightarrow> int (length (positions_of example_store ''s1'')) + 1 < 6) \<and>
   snd (addPoseToSequence example_store ''u1'' ''s1'' (add_command None (Some 6)) example_generated)
      = example_store \<and>
   (fst (updateSequencePose example_store ''u1'' ''s1'' ''A'' (move_command 5)) = Inl INVALID_POSITION
      \<longleftrightarrow> 5 \<noteq> sp_position (entry ''A'' 1) \<and>
          ((5::int) < 1 \<or> int (length (positions_of example_store ''s1'')) < 5)) \<and>
   snd (updateSequencePose example_store ''u1'' ''s1'' ''A'' (move_command 5)) = example_store"
proof -
  have a: "resolvePoseVersion example_store (add_poseId (add_command None (Some 6)))
             (add_poseVersion (add_command None (Some 6))) = Inr ''v2'' \<and>
           add_position (add_command None (Some 6)) = Some 6"
    using example_current_version by (simp add: add_command_def)
  have m: "entry ''A'' 1 \<in> set (sequence_poses example_store) \<and> sp_id (entry ''A'' 1) = ''A'' \<and>
           in_sequence ''s1'' (entry ''A'' 1) \<and> upd_position (move_command 5) = Some 5 \<and>
           upd_duration (move_command 5) = None \<and> upd_instructions (move_command 5) = None"
    by (simp add: example_defs in_sequence_def)
  from invalid_position_iff [OF example_schema_ok example_dense example_owner,
      where addCommand = "add_command None (Some 6)" and v = "''v2''" and p = 6
        and gen = example_generated and e = "entry ''A'' 1" and spid = "''A''"
        and updateCommand = "move_command 5" and new = 5] a m
  show ?thesis by (simp add: example_count entry_def)
qed

section \<open>Unsupported fields\<close>

text \<open>
  Claim C8, as amended. A request with the duration or the instructions field defined
  always fails and writes nothing, whatever position comes with it. When the ownership
  check and the lookup of the entry pass, the error is the not-supported signal, which
  the PATCH handler answers with 400 and the code FEATURE_NOT_SUPPORTED, not with
  VALIDATION_ERROR. When one of them fails, its own error comes first: the error of the
  ownership check, whichever it is, and SEQUENCE_NOT_FOUND when the two ids are UUIDs
  and no sequence of that id belongs to the user; then the error of the lookup,
  whichever it is, and SEQUENCE_POSE_NOT_FOUND when the sequence is the user's and no
  entry of the sequence has the requested id (a UUID).
\<close>

theorem unsupported_fields_rejected:
  assumes "upd_duration cmd \<noteq> None \<or> upd_instructions cmd \<noteq> None"
  shows "(\<exists>err. updateSequencePose st uid sid spid cmd = (Inl err, st) \<and>
            (verifySequenceOwnership st sid uid = Inr owner \<and>
             maybeSingle (filter (\<lambda>r. sp_id r = spid \<and> in_sequence sid r) (sequence_poses st))
               = Inr (Some e) \<longrightarrow>
             err = DURATION_AND_INSTRUCTIONS_NOT_SUPPORTED)) \<and>
         (req_supabase request \<and> req_user request = Some uid \<and>
          uuidParamSchema is_uuid (req_sequenceId request) = Parsed sid \<and>
          uuidParamSchema is_uuid (req_sequencePoseId request) = Parsed spid \<and>
          req_body request = Some body \<and> updateSequencePoseSchema body = Parsed cmd \<and>
          verifySequenceOwnership st sid uid = Inr owner \<and>
          maybeSingle (filter (\<lambda>r. sp_id r = spid \<and> in_sequence sid r) (sequence_poses st))
            = Inr (Some e) \<longrightarrow>
          PATCH is_uuid st request = (ErrorResponse 400 ''FEATURE_NOT_SUPPORTED'', st)) \<and>
         (verifySequenceOwnership st sid uid = Inl ownershipError \<longrightarrow>
          updateSequencePose st uid sid spid cmd = (Inl ownershipError, st)) \<and>
         (sid \<in> uuid_type st \<and> uid \<in> uuid_type st \<and>
          (\<forall>s \<in> set (sequences st). seq_id s = sid \<longrightarrow> seq_user_id s \<noteq> uid) \<longrightarrow>
          updateSequencePose st uid sid spid cmd = (Inl SEQUENCE_NOT_FOUND, st)) \<and>
         (verifySequenceOwnership st sid uid = Inr owner \<and>
          maybeSingle (filter (\<lambda>r. sp_id r = spid \<and> in_sequence sid r) (sequence_poses st))
            = Inl fetchError \<longrightarrow>
          updateSequencePose st uid sid spid cmd = (Inl fetchError, st)) \<and>
         (verifySequenceOwnership st sid uid = Inr owner \<and> spid \<in> uuid_type st \<and>
          (\<forall>r \<in> set (sequence_poses st). sp_id r = spid \<longrightarrow> \<not> in_sequence sid r) \<longrightarrow>
          updateSequencePose st uid sid spid cmd = (Inl SEQUENCE_POSE_NOT_FOUND, st))"
proof -
  obtain res st' where run: "updateSequencePose st uid sid spid cmd = (res, st')"
    by (cases "updateSequencePose st uid sid spid cmd")
  from run have a: "\<exists>err. res = Inl err \<and> st' = st \<and>
            (verifySequenceOwnership st sid uid = Inr owner \<and>
             maybeSingle (filter (\<lambda>r. sp_id r = spid \<and> in_sequence sid r) (sequence_poses st))
               = Inr (Some e) \<longrightarrow>
             err = DURATION_AND_INSTRUCTIONS_NOT_SUPPORTED)"
    by (cases rule: updateSequencePose_cases) (use assms in auto)
  then obtain err where err: "res = Inl err" "st' = st"
    "verifySequenceOwnership st sid uid = Inr owner \<and>
     maybeSingle (filter (\<lambda>r. sp_id r = spid \<and> in_sequence sid r) (sequence_poses st))
       = Inr (Some e) \<longrightarrow> err = DURATION_AND_INSTRUCTIONS_NOT_SUPPORTED" by blast
  have b: "PATCH is_uuid st request = (ErrorResponse 400 ''FEATURE_NOT_SUPPORTED'', st)"
    if "req_supabase request" "req_user request = Some uid"
      "uuidParamSchema is_uuid (req_sequenceId request) = Parsed sid"
      "uuidParamSchema is_uuid (req_sequencePoseId request) = Parsed spid"
      "req_body request = Some body" "updateSequencePoseSchema body = Parsed cmd"
      "verifySequenceOwnership st sid uid = Inr owner"
      "maybeSingle (filter (\<lambda>r. sp_id r = spid \<and> in_sequence sid r) (sequence_poses st))
         = Inr (Some e)"
    using that run err by (simp add: PATCH_def)
  have c: "updateSequencePose st uid sid spid cmd = (Inl ownershipError, st)"
    if "verifySequenceOwnership st sid uid = Inl ownershipError"
    using that by (simp add: updateSequencePose_def)
  have d: "updateSequencePose st uid sid spid cmd = (Inl SEQUENCE_NOT_FOUND, st)"
    if "sid \<in> uuid_type st" "uid \<in> uuid_type st"
      "\<forall>s \<in> set (sequences st). seq_id s = sid \<longrightarrow> seq_user_id s \<noteq> uid"
    using not_owner_rejected [OF that] by (simp add: updateSequencePose_def)
  have f: "updateSequencePose st uid sid spid cmd = (Inl fetchError, st)"
    if "verifySequenceOwnership st sid uid = Inr owner"
      "maybeSingle (filter (\<lambda>r. sp_id r = spid \<and> in_sequence sid r) (sequence_poses st))
         = Inl fetchError"
    using that by (simp add: updateSequencePose_def)
  have g: "updateSequencePose st uid sid spid cmd = (Inl SEQUENCE_POSE_NOT_FOUND, st)"
    if own: "verifySequenceOwnership st sid uid = Inr owner"
      and none: "\<forall>r \<in> set (sequence_poses st). sp_id r = spid \<longrightarrow> \<not> in_sequence sid r"
  proof -
    from none have "filter (\<lambda>r. sp_id r = spid \<and> in_sequence sid r) (sequence_poses st) = []"
      by (auto simp: filter_empty_conv)
    with own show ?thesis by (simp add: updateSequencePose_def)
  qed
  from run err(1,2) have r: "updateSequencePose st uid sid spid cmd = (Inl err, st)" by simp
  show ?thesis
  proof (intro conjI)
    from r err(3) show "\<exists>err. updateSequencePose st uid sid spid cmd = (Inl err, st) \<and>
            (verifySequenceOwnership st sid uid = Inr owner \<and>
             maybeSingle (filter (\<lambda>r. sp_id r = spid \<and> in_sequence sid r) (sequence_poses st))
               = Inr (Some e) \<longrightarrow>
             err = DURATION_AND_INSTRUCTIONS_NOT_SUPPORTED)" by blast
  qed (use b c d f g in blast)+
qed

text \<open>A request by someone who does not own the sequence gets SEQUENCE_NOT_FOUND instead.\<close>

theorem unsupported_fields_not_owner:
  "upd_duration \<lparr>upd_position = Some 2, upd_duration = Some 30, upd_instructions = None\<rparr> \<noteq> None \<and>
   updateSequencePose example_store ''u2'' ''s1'' ''A''
       \<lparr>upd_position = Some 2, upd_duration = Some 30, upd_instructions = None\<rparr>
     = (Inl SEQUENCE_NOT_FOUND, example_store) \<and>
   SEQUENCE_NOT_FOUND \<noteq> DURATION_AND_INSTRUCTIONS_NOT_SUPPORTED"
  by code_simp

lemma patch_unsupported_example:
  "PATCH (\<lambda>s. True) example_store
     \<lparr>req_supabase = True, req_user = Some ''u1'', req_sequenceId = Some ''s1'',
      req_sequencePoseId = Some ''A'',
      req_body = Some (JObject [(''position'', JNumber 2), (''duration'', JNumber 30)])\<rparr>
     = (ErrorResponse 400 ''FEATURE_NOT_SUPPORTED'', example_store)"
  by (simp add: PATCH_def uuidParamSchema_def updateSequencePoseSchema_def field_def optional_def
        number_int_positive_def number_int_nonnegative_def updateSequencePose_def
        verifySequenceOwnership_def in_sequence_def example_defs)

theorem unsupported_fields_rejected_witness:
  "updateSequencePose example_store ''u1'' ''s1'' ''A''
       \<lparr>upd_position = Some 2, upd_duration = Some 30, upd_instructions = None\<rparr>
     = (Inl DURATION_AND_INSTRUCTIONS_NOT_SUPPORTED, example_store) \<and>
   PATCH (\<lambda>s. True) example_store
     \<lparr>req_supabase = True, req_user = Some ''u1'', req_sequenceId = Some ''s1'',
      req_sequencePoseId = Some ''A'',
      req_body = Some (JObject [(''position'', JNumber 2), (''duration'', JNumber 30)])\<rparr>
     = (ErrorResponse 400 ''FEATURE_NOT_SUPPORTED'', example_store) \<and>
   updateSequencePose example_store ''u2'' ''s1'' ''A''
       \<lparr>upd_position = Some 2, upd_duration = Some 30, upd_instructions = None\<rparr>
     = (Inl SEQUENCE_NOT_FOUND, example_store) \<and>
   updateSequencePose example_store ''u1'' ''s1'' ''Z''
       \<lparr>upd_position = Some 2, upd_duration = Some 30, upd_instructions = None\<rparr>
     = (Inl SEQUENCE_POSE_NOT_FOUND, example_store) \<and>
   updateSequencePose example_store ''u1'' ''not-a-uuid'' ''A''
       \<lparr>upd_position = Some 2, upd_duration = Some 30, upd_instructions = None\<rparr>
     = (Inl (StoreError InvalidTextRepresentation), example_store)"
proof -
  let ?cmd = "\<lparr>upd_position = Some 2, upd_duration = Some 30, upd_instructions = None\<rparr>"
  have f: "maybeSingle (filter (\<lambda>r. sp_id r = ''A'' \<and> in_sequence ''s1'' r)
             (sequence_poses example_store)) = Inr (Some (entry ''A'' 1))"
    by (simp add: example_defs in_sequence_def)
  have b: "updateSequencePoseSchema (JObject [(''position'', JNumber 2), (''duration'', JNumber 30)])
             = Parsed \<lparr>upd_position = Some 2, upd_duration = Some 30, upd_instructions = None\<rparr>"
    by (simp add: updateSequencePoseSchema_def field_def optional_def
        number_int_positive_def number_int_nonnegative_def)
  from unsupported_fields_rejected [where cmd = "\<lparr>upd_position = Some 2, upd_duration = Some 30,
        upd_instructions = None\<rparr>" and st = example_store and uid = "''u1''" and sid = "''s1''"
        and spid = "''A''" and owner = "\<lparr>seq_id = ''s1'', seq_user_id = ''u1''\<rparr>"
        and e = "entry ''A'' 1" and is_uuid = "\<lambda>s. True"
        and body = "JObject [(''position'', JNumber 2), (''duration'', JNumber 30)]"
        and request = "\<lparr>req_supabase = True, req_user = Some ''u1'', req_sequenceId = Some ''s1'',
          req_sequencePoseId = Some ''A'',
          req_body = Some (JObject [(''position'', JNumber 2), (''duration'', JNumber 30)])\<rparr>"]
    example_owner f b
  have supported: "updateSequencePose example_store ''u1'' ''s1'' ''A'' ?cmd
       = (Inl DURATION_AND_INSTRUCTIONS_NOT_SUPPORTED, example_store) \<and>
     PATCH (\<lambda>s. True) example_store
       \<lparr>req_supabase = True, req_user = Some ''u1'', req_sequenceId = Some ''s1'',
        req_sequencePoseId = Some ''A'',
        req_body = Some (JObject [(''position'', JNumber 2), (''duration'', JNumber 30)])\<rparr>
       = (ErrorResponse 400 ''FEATURE_NOT_SUPPORTED'', example_store)"
    by (auto simp: uuidParamSchema_def)
  have ids: "''s1'' \<in> uuid_type example_store" "''u2'' \<in> uuid_type example_store"
    "''Z'' \<in> uuid_type example_store"
    "\<forall>s \<in> set (sequences example_store). seq_id s = ''s1'' \<longrightarrow> seq_user_id s \<noteq> ''u2''"
    "\<forall>r \<in> set (sequence_poses example_store). sp_id r = ''Z'' \<longrightarrow> \<not> in_sequence ''s1'' r"
    by (simp_all add: example_defs)
  have refused: "verifySequenceOwnership example_store ''not-a-uuid'' ''u1''
      = Inl (StoreError InvalidTextRepresentation)"
    by (simp add: verifySequenceOwnership_def example_store_def)
  have c: "upd_duration ?cmd \<noteq> None \<or> upd_instructions ?cmd \<noteq> None" by simp
  from unsupported_fields_rejected [OF c, where st = example_store and uid = "''u2''"
      and sid = "''s1''" and spid = "''A''"] ids
  have not_owner: "updateSequencePose example_store ''u2'' ''s1'' ''A'' ?cmd
      = (Inl SEQUENCE_NOT_FOUND, example_store)" by blast
  from unsupported_fields_rejected [OF c, where st = example_store and uid = "''u1''"
      and sid = "''s1''" and spid = "''Z''"
      and owner = "\<lparr>seq_id = ''s1'', seq_user_id = ''u1''\<rparr>"] ids example_owner
  have no_entry: "updateSequencePose example_store ''u1'' ''s1'' ''Z'' ?cmd
      = (Inl SEQUENCE_POSE_NOT_FOUND, example_store)" by blast
  from unsupported_fields_rejected [OF c, where st = example_store and uid = "''u1''"
      and sid = "''not-a-uuid''" and spid = "''A''"
      and ownershipError = "StoreError InvalidTextRepresentation"] refused
  have "updateSequencePose example_store ''u1'' ''not-a-uuid'' ''A'' ?cmd
      = (Inl (StoreError InvalidTextRepresentation), example_store)" by blast
  with supported not_owner no_entry show ?thesis by simp
qed

section \<open>The lower bound of a position\<close>

lemma number_int_positive_Parsed:
  "number_int_positive j = Parsed n \<Longrightarrow> 0 < n \<and> j = JNumber (of_int n)"
  by (cases j) (auto simp: number_int_positive_def split: if_splits)

lemma number_int_positive_Issue:
  assumes "\<forall>n. 0 < n \<longrightarrow> j \<noteq> JNumber (of_int n)"
  shows "number_int_positive j = Issue"
proof (cases "number_int_positive j")
  case Issue
  then show ?thesis .
next
  case (Parsed n)
  with number_int_positive_Parsed assms show ?thesis by blast
qed

lemma optional_positive_Parsed:
  "optional number_int_positive v = Parsed (Some n) \<Longrightarrow> 1 \<le> n"
  by (cases v) (auto simp: optional_def split: parsed.splits dest: number_int_positive_Parsed)

lemma add_schema_position_issue:
  assumes "field kvs k = Some j" "number_int_positive j = Issue" "k = ''position'' \<or> k = ''poseVersion''"
  shows "addPoseToSequenceSchema is_uuid (JObject kvs) = Issue"
  using assms by (auto simp: addPoseToSequenceSchema_def optional_def split: parsed.splits)

lemma update_schema_position_issue:
  assumes "field kvs ''position'' = Some j" "number_int_positive j = Issue"
  shows "updateSequencePoseSchema (JObject kvs) = Issue"
  using assms by (auto simp: updateSequencePoseSchema_def optional_def split: parsed.splits)

lemma add_schema_Parsed:
  assumes "addPoseToSequenceSchema is_uuid body = Parsed cmd"
  shows "(\<forall>q. add_position cmd = Some q \<longrightarrow> 1 \<le> q) \<and> (\<forall>n. add_poseVersion cmd = Some n \<longrightarrow> 1 \<le> n)"
proof (cases body)
  case (JObject kvs)
  with assms obtain poseId poseVersion position where
    "optional number_int_positive (field kvs ''poseVersion'') = Parsed poseVersion"
    "optional number_int_positive (field kvs ''position'') = Parsed position"
    "cmd = \<lparr>add_poseId = poseId, add_poseVersion = poseVersion, add_position = position\<rparr>"
    by (auto simp: addPoseToSequenceSchema_def split: parsed.splits)
  then show ?thesis by (auto dest: optional_positive_Parsed)
qed (use assms in \<open>simp_all add: addPoseToSequenceSchema_def\<close>)

lemma update_schema_Parsed:
  assumes "updateSequencePoseSchema body = Parsed cmd"
  shows "\<forall>q. upd_position cmd = Some q \<longrightarrow> 1 \<le> q"
proof (cases body)
  case (JObject kvs)
  with assms obtain position duration instructions where
    "optional number_int_positive (field kvs ''position'') = Parsed position"
    "cmd = \<lparr>upd_position = position, upd_duration = duration, upd_instructions = instructions\<rparr>"
    by (auto simp: updateSequencePoseSchema_def split: parsed.splits if_splits)
  then show ?thesis by (auto dest: optional_positive_Parsed)
qed (use assms in \<open>simp_all add: updateSequencePoseSchema_def\<close>)

text \<open>A request either is answered with an error before the service is called, or the
  service is called with a command whose position, if any, is at least 1.\<close>

lemma POST_reaches_service:
  "(\<exists>status code. POST is_uuid st request gen = (ErrorResponse status code, st)) \<or>
   (\<exists>user sequenceId command.
      addPoseToSequenceSchema is_uuid (the (req_body request)) = Parsed command \<and>
      (\<forall>q. add_position command = Some q \<longrightarrow> 1 \<le> q) \<and>
      POST is_uuid st request gen =
        (case addPoseToSequence st user sequenceId command gen of
           (Inr sequencePose, st') \<Rightarrow> (Json 201 sequencePose, st')
         | (Inl e, st') \<Rightarrow> (post_catch e, st')))"
proof (cases "req_supabase request")
  case False
  then show ?thesis by (simp add: POST_def)
next
  case sb: True
  show ?thesis
  proof (cases "req_user request")
    case None
    with sb show ?thesis by (simp add: POST_def)
  next
    case (Some user)
    show ?thesis
    proof (cases "uuidParamSchema is_uuid (req_sequenceId request)")
      case Issue
      with sb Some show ?thesis by (simp add: POST_def)
    next
      case (Parsed sequenceId)
      show ?thesis
      proof (cases "req_body request")
        case None
        with sb Some Parsed show ?thesis by (simp add: POST_def)
      next
        case body: (Some requestBody)
        show ?thesis
        proof (cases "addPoseToSequenceSchema is_uuid requestBody")
          case Issue
          with sb Some Parsed body show ?thesis by (simp add: POST_def)
        next
          case cmd: (Parsed command)
          from add_schema_Parsed [OF cmd]
          have "\<forall>q. add_position command = Some q \<longrightarrow> 1 \<le> q" by simp
          moreover have "POST is_uuid st request gen =
              (case addPoseToSequence st user sequenceId command gen of
                 (Inr sequencePose, st') \<Rightarrow> (Json 201 sequencePose, st')
               | (Inl e, st') \<Rightarrow> (post_catch e, st'))"
            using sb Some Parsed body cmd by (simp add: POST_def)
          ultimately show ?thesis using body cmd
            by (intro disjI2 exI [of _ user] exI [of _ sequenceId] exI [of _ command]) simp
        qed
      qed
    qed
  qed
qed

lemma PATCH_reaches_service:
  "(\<exists>status code. PATCH is_uuid st request = (ErrorResponse status code, st)) \<or>
   (\<exists>user sequenceId sequencePoseId command.
      updateSequencePoseSchema (the (req_body request)) = Parsed command \<and>
      (\<forall>q. upd_position command = Some q \<longrightarrow> 1 \<le> q) \<and>
      PATCH is_uuid st request =
        (case updateSequencePose st user sequenceId sequencePoseId command of
           (Inr updatedPose, st') \<Rightarrow> (Json 200 updatedPose, st')
         | (Inl e, st') \<Rightarrow> (patch_catch e, st')))"
proof (cases "req_supabase request")
  case False
  then show ?thesis by (simp add: PATCH_def)
next
  case sb: True
  show ?thesis
  proof (cases "req_user request")
    case None
    with sb show ?thesis by (simp add: PATCH_def)
  next
    case (Some user)
    show ?thesis
    proof (cases "uuidParamSchema is_uuid (req_sequenceId request)")
      case Issue
      with sb Some show ?thesis by (simp add: PATCH_def)
    next
      case sid: (Parsed sequenceId)
      show ?thesis
      proof (cases "uuidParamSchema is_uuid (req_sequencePoseId request)")
        case Issue
        with sb Some sid show ?thesis by (simp add: PATCH_def)
      next
        case spid: (Parsed sequencePoseId)
        show ?thesis
        proof (cases "req_body request")
          case None
          with sb Some sid spid show ?thesis by (simp add: PATCH_def)
        next
          case body: (Some requestBody)
          show ?thesis
          proof (cases "updateSequencePoseSchema requestBody")
            case Issue
            with sb Some sid spid body show ?thesis by (simp add: PATCH_def)
          next
            case cmd: (Parsed command)
            from update_schema_Parsed [OF cmd]
            have "\<forall>q. upd_position command = Some q \<longrightarrow> 1 \<le> q" by simp
            moreover have "PATCH is_uuid st request =
                (case updateSequencePose st user sequenceId sequencePoseId command of
                   (Inr updatedPose, st') \<Rightarrow> (Json 200 updatedPose, st')
                 | (Inl e, st') \<Rightarrow> (patch_catch e, st'))"
              using sb Some sid spid body cmd by (simp add: PATCH_def)
            ultimately show ?thesis using body cmd
              by (intro disjI2 exI [of _ user] exI [of _ sequenceId] exI [of _ sequencePoseId]
                    exI [of _ command]) simp
          qed
        qed
      qed
    qed
  qed
qed

text \<open>
  Claim C10. A body whose \<open>position\<close> (or, for POST, \<open>poseVersion\<close>) key is present
  with a value that is not a positive integer fails the Zod schema; the handler then
  answers with an error and the store it was given, and with 400 VALIDATION_ERROR once
  the request is authenticated and its path parameters are valid. Every request either
  is answered that way, before the service is called, or reaches the service with a
  command whose position, if any, is at least 1. The service itself compares a supplied
  position with the next free position only: Insert fails with INVALID_POSITION exactly
  when the position is above it, however small the position is.
\<close>

theorem lower_bound_guard:
  "(field kvs k = Some j \<and> (\<forall>n. 0 < n \<longrightarrow> j \<noteq> JNumber (of_int n)) \<longrightarrow>
      (k = ''position'' \<or> k = ''poseVersion'' \<longrightarrow>
         addPoseToSequenceSchema is_uuid (JObject kvs) = Issue \<and>
         (req_body request = Some (JObject kvs) \<longrightarrow>
            (\<exists>status code. POST is_uuid st request gen = (ErrorResponse status code, st)) \<and>
            (req_supabase request \<and> req_user request = Some user \<and>
             uuidParamSchema is_uuid (req_sequenceId request) = Parsed sequenceId \<longrightarrow>
             POST is_uuid st request gen = (ErrorResponse 400 ''VALIDATION_ERROR'', st)))) \<and>
      (k = ''position'' \<longrightarrow>
         updateSequencePoseSchema (JObject kvs) = Issue \<and>
         (req_body request = Some (JObject kvs) \<longrightarrow>
            (\<exists>status code. PATCH is_uuid st request = (ErrorResponse status code, st)) \<and>
            (req_supabase request \<and> req_user request = Some user \<and>
             uuidParamSchema is_uuid (req_sequenceId request) = Parsed sequenceId \<and>
             uuidParamSchema is_uuid (req_sequencePoseId request) = Parsed sequencePoseId \<longrightarrow>
             PATCH is_uuid st request = (ErrorResponse 400 ''VALIDATION_ERROR'', st))))) \<and>
   ((\<exists>status code. POST is_uuid st request gen = (ErrorResponse status code, st)) \<or>
    (\<exists>user sequenceId command.
       addPoseToSequenceSchema is_uuid (the (req_body request)) = Parsed command \<and>
       (\<forall>q. add_position command = Some q \<longrightarrow> 1 \<le> q) \<and>
       POST is_uuid st request gen =
         (case addPoseToSequence st user sequenceId command gen of
            (Inr sequencePose, st') \<Rightarrow> (Json 201 sequencePose, st')
          | (Inl e, st') \<Rightarrow> (post_catch e, st')))) \<and>
   ((\<exists>status code. PATCH is_uuid st request = (ErrorResponse status code, st)) \<or>
    (\<exists>user sequenceId sequencePoseId command.
       updateSequencePoseSchema (the (req_body request)) = Parsed command \<and>
       (\<forall>q. upd_position command = Some q \<longrightarrow> 1 \<le> q) \<and>
       PATCH is_uuid st request =
         (case updateSequencePose st user sequenceId sequencePoseId command of
            (Inr updatedPose, st') \<Rightarrow> (Json 200 updatedPose, st')
          | (Inl e, st') \<Rightarrow> (patch_catch e, st')))) \<and>
   (verifySequenceOwnership st sid uid = Inr owner \<and>
    resolvePoseVersion st (add_poseId cmd) (add_poseVersion cmd) = Inr v \<and>
    add_position cmd = Some p \<longrightarrow>
      (fst (addPoseToSequence st uid sid cmd gen) = Inl INVALID_POSITION
         \<longleftrightarrow> getNextPosition st sid < p))"
proof -
  have post: "addPoseToSequenceSchema is_uuid (JObject kvs) = Issue \<and>
         (req_body request = Some (JObject kvs) \<longrightarrow>
            (\<exists>status code. POST is_uuid st request gen = (ErrorResponse status code, st)) \<and>
            (req_supabase request \<and> req_user request = Some user \<and>
             uuidParamSchema is_uuid (req_sequenceId request) = Parsed sequenceId \<longrightarrow>
             POST is_uuid st request gen = (ErrorResponse 400 ''VALIDATION_ERROR'', st)))"
    if a: "field kvs k = Some j" "\<forall>n. 0 < n \<longrightarrow> j \<noteq> JNumber (of_int n)"
      "k = ''position'' \<or> k = ''poseVersion''"
  proof -
    have i: "addPoseToSequenceSchema is_uuid (JObject kvs) = Issue"
      using add_schema_position_issue [OF a(1) number_int_positive_Issue [OF a(2)] a(3)] .
    have "\<exists>status code. POST is_uuid st request gen = (ErrorResponse status code, st)"
      if "req_body request = Some (JObject kvs)"
      using POST_reaches_service [of is_uuid st request gen] that i by auto
    moreover have "POST is_uuid st request gen = (ErrorResponse 400 ''VALIDATION_ERROR'', st)"
      if "req_body request = Some (JObject kvs)" "req_supabase request"
        "req_user request = Some user"
        "uuidParamSchema is_uuid (req_sequenceId request) = Parsed sequenceId"
      using that i by (simp add: POST_def)
    ultimately show ?thesis using i by blast
  qed
  have patch: "updateSequencePoseSchema (JObject kvs) = Issue \<and>
         (req_body request = Some (JObject kvs) \<longrightarrow>
            (\<exists>status code. PATCH is_uuid st request = (ErrorResponse status code, st)) \<and>
            (req_supabase request \<and> req_user request = Some user \<and>
             uuidParamSchema is_uuid (req_sequenceId request) = Parsed sequenceId \<and>
             uuidParamSchema is_uuid (req_sequencePoseId request) = Parsed sequencePoseId \<longrightarrow>
             PATCH is_uuid st request = (ErrorResponse 400 ''VALIDATION_ERROR'', st)))"
    if a: "field kvs k = Some j" "\<forall>n. 0 < n \<longrightarrow> j \<noteq> JNumber (of_int n)" "k = ''position''"
  proof -
    have i: "updateSequencePoseSchema (JObject kvs) = Issue"
      using update_schema_position_issue [OF _ number_int_positive_Issue [OF a(2)]] a(1,3) by simp
    have "\<exists>status code. PATCH is_uuid st request = (ErrorResponse status code, st)"
      if "req_body request = Some (JObject kvs)"
      using PATCH_reaches_service [of is_uuid st request] that i by auto
    moreover have "PATCH is_uuid st request = (ErrorResponse 400 ''VALIDATION_ERROR'', st)"
      if "req_body request = Some (JObject kvs)" "req_supabase request"
        "req_user request = Some user"
        "uuidParamSchema is_uuid (req_sequenceId request) = Parsed sequenceId"
        "uuidParamSchema is_uuid (req_sequencePoseId request) = Parsed sequencePoseId"
      using that i by (simp add: PATCH_def)
    ultimately show ?thesis using i by blast
  qed
  have service: "fst (addPoseToSequence st uid sid cmd gen) = Inl INVALID_POSITION
         \<longleftrightarrow> getNextPosition st sid < p"
    if "verifySequenceOwnership st sid uid = Inr owner"
      "resolvePoseVersion st (add_poseId cmd) (add_poseVersion cmd) = Inr v"
      "add_position cmd = Some p"
    using insert_invalid_iff [OF that] by blast
  show ?thesis
    apply (intro conjI)
       apply (use post patch in blast)
      apply (rule POST_reaches_service)
     apply (rule PATCH_reaches_service)
    apply (use service in blast)
    done
qed

lemma example_next_position: "getNextPosition example_store ''s1'' = 5"
  by code_simp

theorem lower_bound_guard_witness:
  "addPoseToSequenceSchema (\<lambda>s. True)
       (JObject [(''poseId'', JString ''p1''), (''position'', JNumber 0)]) = Issue \<and>
   POST (\<lambda>s. True) example_store
       \<lparr>req_supabase = True, req_user = Some ''u1'', req_sequenceId = Some ''s1'',
        req_sequencePoseId = None,
        req_body = Some (JObject [(''poseId'', JString ''p1''), (''position'', JNumber 0)])\<rparr>
       example_generated
     = (ErrorResponse 400 ''VALIDATION_ERROR'', example_store) \<and>
   updateSequencePoseSchema (JObject [(''poseId'', JString ''p1''), (''position'', JNumber 0)]) = Issue \<and>
   fst (addPoseToSequence example_store ''u1'' ''s1'' (add_command None (Some 0)) example_generated)
     \<noteq> Inl INVALID_POSITION"
proof -
  have f: "field [(''poseId'', JString ''p1''), (''position'', JNumber 0)] ''position'' = Some (JNumber 0)"
    by (simp add: field_def)
  have n: "\<forall>n::int. 0 < n \<longrightarrow> JNumber 0 \<noteq> JNumber (of_int n)" by simp
  have c: "resolvePoseVersion example_store (add_poseId (add_command None (Some 0)))
             (add_poseVersion (add_command None (Some 0))) = Inr ''v2'' \<and>
           add_position (add_command None (Some 0)) = Some 0"
    using example_current_version by (simp add: add_command_def)
  from lower_bound_guard [where kvs = "[(''poseId'', JString ''p1''), (''position'', JNumber 0)]"
      and k = "''position''" and j = "JNumber 0" and is_uuid = "\<lambda>s. True"
      and request = "\<lparr>req_supabase = True, req_user = Some ''u1'', req_sequenceId = Some ''s1'',
        req_sequencePoseId = None,
        req_body = Some (JObject [(''poseId'', JString ''p1''), (''position'', JNumber 0)])\<rparr>"
      and st = example_store and gen = example_generated and user = "''u1''"
      and sequenceId = "''s1''" and sid = "''s1''" and uid = "''u1''"
      and owner = "\<lparr>seq_id = ''s1'', seq_user_id = ''u1''\<rparr>"
      and cmd = "add_command None (Some 0)" and v = "''v2''" and p = 0]
    f n c example_owner
  show ?thesis by (simp add: uuidParamSchema_def example_next_position)
qed

section \<open>Version pinning\<close>

lemma unpositioned_eqD:
  assumes "unpositioned r' = unpositioned r"
  shows "sp_id r' = sp_id r \<and> sp_pose_id r' = sp_pose_id r \<and>
         sp_pose_version_id r' = sp_pose_version_id r"
proof -
  have "sp_id (unpositioned r') = sp_id (unpositioned r)"
    "sp_pose_id (unpositioned r') = sp_pose_id (unpositioned r)"
    "sp_pose_version_id (unpositioned r') = sp_pose_version_id (unpositioned r)"
    using assms by simp_all
  then show ?thesis by simp
qed

lemma same_rows_up_to_position:
  assumes "map unpositioned rows' = map unpositioned rows" "r' \<in> set rows'"
  shows "\<exists>r\<in>set rows. sp_id r' = sp_id r \<and> sp_pose_id r' = sp_pose_id r \<and>
           sp_pose_version_id r' = sp_pose_version_id r"
proof -
  from assms(2) have "unpositioned r' \<in> set (map unpositioned rows')" by simp
  then have "unpositioned r' \<in> set (map unpositioned rows)" unfolding assms(1) .
  then obtain r where "r \<in> set rows" "unpositioned r' = unpositioned r" by auto
  with unpositioned_eqD show ?thesis by blast
qed

lemma framed_rows:
  assumes "framed st st'" "r' \<in> set (sequence_poses st')"
  shows "\<exists>r\<in>set (sequence_poses st). sp_id r' = sp_id r \<and> sp_pose_id r' = sp_pose_id r \<and>
           sp_pose_version_id r' = sp_pose_version_id r"
  using same_rows_up_to_position [OF framed_fields(5) [OF assms(1)] assms(2)] .

lemma framed_columns:
  assumes "framed st st'"
  shows "map sp_id (sequence_poses st') = map sp_id (sequence_poses st) \<and>
         map sp_pose_id (sequence_poses st') = map sp_pose_id (sequence_poses st) \<and>
         map sp_pose_version_id (sequence_poses st') = map sp_pose_version_id (sequence_poses st)"
proof -
  let ?a = "sequence_poses st'" and ?b = "sequence_poses st"
  have e: "map unpositioned ?a = map unpositioned ?b" by (rule framed_fields(5) [OF assms])
  have "map sp_pose_version_id (map unpositioned ?a) = map sp_pose_version_id (map unpositioned ?b)"
    using e by simp
  then have "map sp_pose_version_id ?a = map sp_pose_version_id ?b" by (simp add: comp_def)
  with unpositioned_same_columns [OF e] show ?thesis by simp
qed

lemma resolve_requested_version:
  assumes "resolvePoseVersion st poseId (Some n) = Inr v"
  shows "\<exists>pv\<in>set (pose_versions st). pv_pose_id pv = poseId \<and> pv_version pv = n \<and> pv_id pv = v"
proof -
  from assms obtain data where
    m: "maybeSingle (filter (\<lambda>pv. pv_pose_id pv = poseId \<and> pv_version pv = n) (pose_versions st))
       = Inr (Some data)" and v: "v = pv_id data"
    by (auto simp: resolvePoseVersion_def split: sum.splits option.splits)
  from maybeSingle_SomeD [OF m]
  have "data \<in> set (filter (\<lambda>pv. pv_pose_id pv = poseId \<and> pv_version pv = n) (pose_versions st))"
    by simp
  with v show ?thesis by auto
qed

lemma resolve_current_version:
  assumes "resolvePoseVersion st poseId None = Inr v"
  shows "\<exists>p\<in>set (poses st). pose_id p = poseId \<and> pose_current_version_id p = Some v"
proof -
  from assms obtain poseData where
    m: "maybeSingle (filter (\<lambda>p. pose_id p = poseId) (poses st)) = Inr (Some poseData)"
    and v: "pose_current_version_id poseData = Some v"
    by (auto simp: resolvePoseVersion_def split: sum.splits option.splits if_splits)
  from maybeSingle_SomeD [OF m]
  have "poseData \<in> set (filter (\<lambda>p. pose_id p = poseId) (poses st))" by simp
  with v show ?thesis by auto
qed

lemma insert_pins_version:
  assumes run: "addPoseToSequence st uid sid cmd gen = (res, st')"
  shows "(\<forall>r'\<in>set (sequence_poses st').
            (\<exists>r\<in>set (sequence_poses st). sp_id r' = sp_id r \<and> sp_pose_id r' = sp_pose_id r \<and>
               sp_pose_version_id r' = sp_pose_version_id r) \<or>
            (sp_id r' = gen_id gen \<and> sp_pose_id r' = add_poseId cmd \<and>
             resolvePoseVersion st (add_poseId cmd) (add_poseVersion cmd)
               = Inr (sp_pose_version_id r'))) \<and>
         (\<forall>created. res = Inr created \<longrightarrow>
            (\<exists>r'\<in>set (sequence_poses st'). sp_id r' = gen_id gen \<and> sp_pose_id r' = add_poseId cmd \<and>
               resolvePoseVersion st (add_poseId cmd) (add_poseVersion cmd)
                 = Inr (sp_pose_version_id r')))"
  using run
proof (cases rule: addPoseToSequence_cases)
  case (not_owner e)
  then show ?thesis by auto
next
  case (no_version e)
  then show ?thesis by auto
next
  case (invalid v)
  then show ?thesis by auto
next
  case (shift_failed v x)
  with framed_rows [OF shift_failed(4)] show ?thesis by auto
next
  case (insert_failed v x st1)
  with framed_rows [OF insert_failed(4)] show ?thesis by auto
next
  case (inserted v st1)
  with framed_rows [OF inserted(3)] show ?thesis by auto
qed

lemma move_keeps_versions:
  assumes run: "updateSequencePose st uid sid spid cmd = (res, st')"
  shows "map sp_id (sequence_poses st') = map sp_id (sequence_poses st) \<and>
         map sp_pose_id (sequence_poses st') = map sp_pose_id (sequence_poses st) \<and>
         map sp_pose_version_id (sequence_poses st') = map sp_pose_version_id (sequence_poses st)"
  using run by (cases rule: updateSequencePose_cases) (auto dest: framed_columns)

lemma remove_keeps_versions:
  assumes run: "removeSequencePose st uid sid spid = (res, st')"
  shows "\<forall>r'\<in>set (sequence_poses st').
           \<exists>r\<in>set (sequence_poses st). sp_id r' = sp_id r \<and> sp_pose_id r' = sp_pose_id r \<and>
             sp_pose_version_id r' = sp_pose_version_id r"
  using run
proof (cases rule: removeSequencePose_cases)
  case (deleted e)
  show ?thesis
  proof
    fix r' assume "r' \<in> set (sequence_poses st')"
    from framed_rows [OF deleted(3) this] show "\<exists>r\<in>set (sequence_poses st).
        sp_id r' = sp_id r \<and> sp_pose_id r' = sp_pose_id r \<and>
        sp_pose_version_id r' = sp_pose_version_id r" by auto
  qed
qed auto


lemma filter_key_unique:
  assumes "distinct (map f xs)" "x \<in> set xs"
  shows "filter (\<lambda>y. f y = f x) xs = [x]"
  using assms by (induction xs) (auto simp: filter_empty_conv image_iff)

lemma requested_version_resolves:
  assumes "unique_pose_version (pose_versions st)" "pv \<in> set (pose_versions st)"
  shows "resolvePoseVersion st (pv_pose_id pv) (Some (pv_version pv)) = Inr (pv_id pv)"
proof -
  from filter_key_unique [of "\<lambda>v. (pv_pose_id v, pv_version v)" "pose_versions st" pv] assms
  have "filter (\<lambda>x. pv_pose_id x = pv_pose_id pv \<and> pv_version x = pv_version pv) (pose_versions st)
      = [pv]"
    by (simp add: unique_pose_version_def)
  then show ?thesis by (simp add: resolvePoseVersion_def)
qed

lemma current_version_resolves:
  assumes "poses_primary_key (poses st)" "p \<in> set (poses st)"
    and "pose_current_version_id p = Some c" "c \<noteq> []"
  shows "resolvePoseVersion st (pose_id p) None = Inr c"
proof -
  from filter_key_unique [of pose_id "poses st" p] assms(1,2)
  have "filter (\<lambda>x. pose_id x = pose_id p) (poses st) = [p]"
    by (simp add: poses_primary_key_def)
  with assms(3,4) show ?thesis by (simp add: resolvePoseVersion_def)
qed

text \<open>Claim C9. Version pinning. Whatever way \<open>addPoseToSequence\<close> ends, every row of the
  table afterwards is either a row that was there before, with the same id, pose and pose
  version, or the row it created, whose \<open>pose_version_id\<close> is the value of
  \<open>resolvePoseVersion\<close> on the store at that moment; when it succeeds the created row is in the
  table. \<open>resolvePoseVersion\<close> returns the id of the version with the requested number when one
  is requested, and the pose's \<open>current_version_id\<close> otherwise: a value it returns is the id of
  such a version row (the current version of such a pose), and on tables that satisfy
  their constraints every existing version of a pose, requested by its number, resolves
  to its id, and every pose with a current version resolves to it. Whatever has happened to the
  tables \<open>poses\<close> and \<open>pose_versions\<close> in the meantime (\<open>ps\<close>, \<open>pvs\<close>), and whatever way they
  end, \<open>updateSequencePose\<close> leaves the columns \<open>id\<close>, \<open>pose_id\<close> and \<open>pose_version_id\<close> of the
  table as they were, row by row, and every row left by \<open>removeSequencePose\<close> is a row of before
  with the same id, pose and pose version.\<close>

theorem version_pinned:
  "(addPoseToSequence st userId sequenceId addCommand gen = (resI, stI) \<longrightarrow>
      (\<forall>r'\<in>set (sequence_poses stI).
         (\<exists>r\<in>set (sequence_poses st). sp_id r' = sp_id r \<and> sp_pose_id r' = sp_pose_id r \<and>
            sp_pose_version_id r' = sp_pose_version_id r) \<or>
         (sp_id r' = gen_id gen \<and> sp_pose_id r' = add_poseId addCommand \<and>
          resolvePoseVersion st (add_poseId addCommand) (add_poseVersion addCommand)
            = Inr (sp_pose_version_id r'))) \<and>
      (resI = Inr created \<longrightarrow>
         (\<exists>r'\<in>set (sequence_poses stI). sp_id r' = gen_id gen \<and>
            sp_pose_id r' = add_poseId addCommand \<and>
            resolvePoseVersion st (add_poseId addCommand) (add_poseVersion addCommand)
              = Inr (sp_pose_version_id r')))) \<and>
   (resolvePoseVersion st poseId (Some n) = Inr v \<longrightarrow>
      (\<exists>pv\<in>set (pose_versions st). pv_pose_id pv = poseId \<and> pv_version pv = n \<and> pv_id pv = v)) \<and>
   (resolvePoseVersion st poseId None = Inr v' \<longrightarrow>
      (\<exists>p\<in>set (poses st). pose_id p = poseId \<and> pose_current_version_id p = Some v')) \<and>
   (unique_pose_version (pose_versions st) \<and> pv \<in> set (pose_versions st) \<longrightarrow>
      resolvePoseVersion st (pv_pose_id pv) (Some (pv_version pv)) = Inr (pv_id pv)) \<and>
   (poses_primary_key (poses st) \<and> p \<in> set (poses st) \<and>
    pose_current_version_id p = Some c \<and> c \<noteq> [] \<longrightarrow>
      resolvePoseVersion st (pose_id p) None = Inr c) \<and>
   (updateSequencePose (st\<lparr>poses := ps, pose_versions := pvs\<rparr>) userId sequenceId sequencePoseId
        updateCommand = (resM, stM) \<longrightarrow>
      map sp_id (sequence_poses stM) = map sp_id (sequence_poses st) \<and>
      map sp_pose_id (sequence_poses stM) = map sp_pose_id (sequence_poses st) \<and>
      map sp_pose_version_id (sequence_poses stM) = map sp_pose_version_id (sequence_poses st)) \<and>
   (removeSequencePose (st\<lparr>poses := ps, pose_versions := pvs\<rparr>) userId sequenceId removedId
        = (resR, stR) \<longrightarrow>
      (\<forall>r'\<in>set (sequence_poses stR).
         \<exists>r\<in>set (sequence_poses st). sp_id r' = sp_id r \<and> sp_pose_id r' = sp_pose_id r \<and>
           sp_pose_version_id r' = sp_pose_version_id r))"
proof (intro conjI impI)
  assume "addPoseToSequence st userId sequenceId addCommand gen = (resI, stI)"
  from insert_pins_version [OF this]
  show "\<forall>r'\<in>set (sequence_poses stI).
         (\<exists>r\<in>set (sequence_poses st). sp_id r' = sp_id r \<and> sp_pose_id r' = sp_pose_id r \<and>
            sp_pose_version_id r' = sp_pose_version_id r) \<or>
         (sp_id r' = gen_id gen \<and> sp_pose_id r' = add_poseId addCommand \<and>
          resolvePoseVersion st (add_poseId addCommand) (add_poseVersion addCommand)
            = Inr (sp_pose_version_id r'))" by (rule conjunct1)
next
  assume "addPoseToSequence st userId sequenceId addCommand gen = (resI, stI)"
    and "resI = Inr created"
  with insert_pins_version [of st userId sequenceId addCommand gen resI stI]
  show "\<exists>r'\<in>set (sequence_poses stI). sp_id r' = gen_id gen \<and>
            sp_pose_id r' = add_poseId addCommand \<and>
            resolvePoseVersion st (add_poseId addCommand) (add_poseVersion addCommand)
              = Inr (sp_pose_version_id r')" by blast
next
  assume "resolvePoseVersion st poseId (Some n) = Inr v"
  then show "\<exists>pv\<in>set (pose_versions st). pv_pose_id pv = poseId \<and> pv_version pv = n \<and> pv_id pv = v"
    by (rule resolve_requested_version)
next
  assume "resolvePoseVersion st poseId None = Inr v'"
  then show "\<exists>p\<in>set (poses st). pose_id p = poseId \<and> pose_current_version_id p = Some v'"
    by (rule resolve_current_version)
next
  assume "unique_pose_version (pose_versions st) \<and> pv \<in> set (pose_versions st)"
  then show "resolvePoseVersion st (pv_pose_id pv) (Some (pv_version pv)) = Inr (pv_id pv)"
    by (simp add: requested_version_resolves)
next
  assume "poses_primary_key (poses st) \<and> p \<in> set (poses st) \<and>
    pose_current_version_id p = Some c \<and> c \<noteq> []"
  then show "resolvePoseVersion st (pose_id p) None = Inr c"
    by (simp add: current_version_resolves)
next
  assume run: "updateSequencePose (st\<lparr>poses := ps, pose_versions := pvs\<rparr>) userId sequenceId
      sequencePoseId updateCommand = (resM, stM)"
  from move_keeps_versions [OF run]
  show "map sp_id (sequence_poses stM) = map sp_id (sequence_poses st)"
    "map sp_pose_id (sequence_poses stM) = map sp_pose_id (sequence_poses st)"
    "map sp_pose_version_id (sequence_poses stM) = map sp_pose_version_id (sequence_poses st)"
    by simp_all
next
  assume run: "removeSequencePose (st\<lparr>poses := ps, pose_versions := pvs\<rparr>) userId sequenceId
      removedId = (resR, stR)"
  from remove_keeps_versions [OF run]
  show "\<forall>r'\<in>set (sequence_poses stR).
         \<exists>r\<in>set (sequence_poses st). sp_id r' = sp_id r \<and> sp_pose_id r' = sp_pose_id r \<and>
           sp_pose_version_id r' = sp_pose_version_id r" by simp
qed



lemma pinned_example_insert:
  "map (\<lambda>r. (sp_id r, sp_pose_version_id r))
     (sequence_poses (snd (addPoseToSequence
        (snd (addPoseToSequence example_store ''u1'' ''s1'' (add_command None None)
           example_generated))
        ''u1'' ''s1'' (add_command (Some 1) None) \<lparr>gen_id = ''M'', gen_added_at = ''t2''\<rparr>)))
   = [(''A'', ''v1''), (''B'', ''v1''), (''C'', ''v1''), (''D'', ''v1''), (''N'', ''v2''),
      (''M'', ''v1'')]"
  by code_simp

lemma pinned_example_later:
  "resolvePoseVersion (publish_version (snd (addPoseToSequence
        (snd (addPoseToSequence example_store ''u1'' ''s1'' (add_command None None)
           example_generated))
        ''u1'' ''s1'' (add_command (Some 1) None) \<lparr>gen_id = ''M'', gen_added_at = ''t2''\<rparr>)))
     ''p1'' None = Inr ''v3''"
  by code_simp

lemma pinned_example_remove:
  "map (\<lambda>r. (sp_id r, sp_pose_version_id r))
     (sequence_poses (snd (removeSequencePose (publish_version (snd (addPoseToSequence
        (snd (addPoseToSequence example_store ''u1'' ''s1'' (add_command None None)
           example_generated))
        ''u1'' ''s1'' (add_command (Some 1) None) \<lparr>gen_id = ''M'', gen_added_at = ''t2''\<rparr>)))
        ''u1'' ''s1'' ''B'')))
   = [(''A'', ''v1''), (''C'', ''v1''), (''D'', ''v1''), (''N'', ''v2''), (''M'', ''v1'')]"
  by code_simp

theorem version_pinned_witness:
  "let st1 = snd (addPoseToSequence example_store ''u1'' ''s1'' (add_command None None)
                    example_generated);
       st2 = snd (addPoseToSequence st1 ''u1'' ''s1'' (add_command (Some 1) None)
                    \<lparr>gen_id = ''M'', gen_added_at = ''t2''\<rparr>);
       later = publish_version st2
   in resolvePoseVersion example_store ''p1'' None = Inr ''v2'' \<and>
      resolvePoseVersion example_store ''p1'' (Some 1) = Inr ''v1'' \<and>
      map (\<lambda>r. (sp_id r, sp_pose_version_id r)) (sequence_poses st2)
        = [(''A'', ''v1''), (''B'', ''v1''), (''C'', ''v1''), (''D'', ''v1''), (''N'', ''v2''),
           (''M'', ''v1'')] \<and>
      resolvePoseVersion later ''p1'' None = Inr ''v3'' \<and>
      map sp_pose_version_id
        (sequence_poses (snd (updateSequencePose later ''u1'' ''s1'' ''N'' (move_command 5))))
        = [''v1'', ''v1'', ''v1'', ''v1'', ''v2'', ''v1''] \<and>
      map (\<lambda>r. (sp_id r, sp_pose_version_id r))
        (sequence_poses (snd (removeSequencePose later ''u1'' ''s1'' ''B'')))
        = [(''A'', ''v1''), (''C'', ''v1''), (''D'', ''v1''), (''N'', ''v2''), (''M'', ''v1'')]"
proof -
  define st2 where "st2 = snd (addPoseToSequence
    (snd (addPoseToSequence example_store ''u1'' ''s1'' (add_command None None) example_generated))
    ''u1'' ''s1'' (add_command (Some 1) None) \<lparr>gen_id = ''M'', gen_added_at = ''t2''\<rparr>)"
  define ps where "ps = map (\<lambda>p. p\<lparr>pose_current_version_id := Some ''v3''\<rparr>) (poses st2)"
  define pvs where
    "pvs = pose_versions st2 @ [\<lparr>pv_id = ''v3'', pv_pose_id = ''p1'', pv_version = 3\<rparr>]"
  have tables: "unique_pose_version (pose_versions example_store)"
    "\<lparr>pv_id = ''v1'', pv_pose_id = ''p1'', pv_version = 1\<rparr> \<in> set (pose_versions example_store)"
    "poses_primary_key (poses example_store)"
    "\<lparr>pose_id = ''p1'', pose_name = ''Tree'', pose_sanskrit_name = Some ''Vrksasana'',
      pose_image_url = None, pose_image_alt = ''tree'',
      pose_current_version_id = Some ''v2''\<rparr> \<in> set (poses example_store)"
    by (simp_all add: unique_pose_version_def poses_primary_key_def example_store_def)
  from version_pinned [where st = example_store
      and pv = "\<lparr>pv_id = ''v1'', pv_pose_id = ''p1'', pv_version = 1\<rparr>"
      and p = "\<lparr>pose_id = ''p1'', pose_name = ''Tree'', pose_sanskrit_name = Some ''Vrksasana'',
        pose_image_url = None, pose_image_alt = ''tree'',
        pose_current_version_id = Some ''v2''\<rparr>" and c = "''v2''"] tables
  have resolved: "resolvePoseVersion example_store ''p1'' None = Inr ''v2''"
    "resolvePoseVersion example_store ''p1'' (Some 1) = Inr ''v1''"
    by simp_all
  have later: "publish_version st2 = st2\<lparr>poses := ps, pose_versions := pvs\<rparr>"
    by (simp add: publish_version_def ps_def pvs_def)
  have rows: "map (\<lambda>r. (sp_id r, sp_pose_version_id r)) (sequence_poses st2)
      = [(''A'', ''v1''), (''B'', ''v1''), (''C'', ''v1''), (''D'', ''v1''), (''N'', ''v2''),
         (''M'', ''v1'')]"
    unfolding st2_def by (rule pinned_example_insert)
  have "map sp_pose_version_id (sequence_poses st2)
      = map snd (map (\<lambda>r. (sp_id r, sp_pose_version_id r)) (sequence_poses st2))"
    by (simp add: comp_def)
  then have versions: "map sp_pose_version_id (sequence_poses st2)
      = [''v1'', ''v1'', ''v1'', ''v1'', ''v2'', ''v1'']"
    unfolding rows by simp
  have move: "updateSequencePose (st2\<lparr>poses := ps, pose_versions := pvs\<rparr>) ''u1'' ''s1'' ''N''
        (move_command 5)
      = (fst (updateSequencePose (publish_version st2) ''u1'' ''s1'' ''N'' (move_command 5)),
         snd (updateSequencePose (publish_version st2) ''u1'' ''s1'' ''N'' (move_command 5)))"
    unfolding later by simp
  from version_pinned [where st = st2 and ps = ps and pvs = pvs and userId = "''u1''"
      and sequenceId = "''s1''" and sequencePoseId = "''N''" and updateCommand = "move_command 5"
      and resM = "fst (updateSequencePose (publish_version st2) ''u1'' ''s1'' ''N'' (move_command 5))"
      and stM = "snd (updateSequencePose (publish_version st2) ''u1'' ''s1'' ''N'' (move_command 5))"]
    move
  have "map sp_pose_version_id
      (sequence_poses (snd (updateSequencePose (publish_version st2) ''u1'' ''s1'' ''N''
         (move_command 5))))
      = map sp_pose_version_id (sequence_poses st2)"
    by blast
  with versions rows resolved pinned_example_later pinned_example_remove
  show ?thesis unfolding Let_def st2_def by simp
qed

end
